theory Spec2Isabelle
  imports Main "HOL-Library.Multiset"
begin

section \<open>Python strings\<close>

text \<open>
  A Python \<open>str\<close> is modelled as a \<open>string\<close>, one \<open>char\<close> per code point, so
  \<open>length\<close> is Python's \<open>len\<close>. The character classes below are Python's for the code
  points U+0000 to U+00FF.
\<close>

definition py_isspace :: "char \<Rightarrow> bool" where
  \<comment> \<open>\<open>str.isspace\<close>, which is also what \<open>str.split()\<close>, \<open>str.strip()\<close> and the regex class
      \<open>\s\<close> use on \<open>str\<close>.\<close>
  "py_isspace c =
     (let n = (of_char c :: nat)
      in (9 \<le> n \<and> n \<le> 13) \<or> (28 \<le> n \<and> n \<le> 32) \<or> n = 133 \<or> n = 160)"

definition py_strip :: "string \<Rightarrow> string" where
  "py_strip s = rev (dropWhile py_isspace (rev (dropWhile py_isspace s)))"

fun split_ws :: "string \<Rightarrow> string \<Rightarrow> string list" where
  "split_ws cur [] = (if cur = [] then [] else [cur])"
| "split_ws cur (c # cs) =
     (if py_isspace c then (if cur = [] then split_ws [] cs else cur # split_ws [] cs)
      else split_ws (cur @ [c]) cs)"

definition py_split :: "string \<Rightarrow> string list" where
  \<comment> \<open>\<open>s.split()\<close>: the maximal runs of non-whitespace characters.\<close>
  "py_split s = split_ws [] s"

fun split_dot :: "string \<Rightarrow> string \<Rightarrow> string list" where
  "split_dot cur [] = [cur]"
| "split_dot cur [c] = [cur @ [c]]"
| "split_dot cur (c # d # cs) =
     (if c = CHR ''.'' \<and> d = CHR '' '' then cur # split_dot [] cs
      else split_dot (cur @ [c]) (d # cs))"

definition py_split_dot :: "string \<Rightarrow> string list" where
  \<comment> \<open>\<open>s.split('. ')\<close>: cut at every occurrence of the delimiter, left to right.\<close>
  "py_split_dot s = split_dot [] s"

fun py_join :: "string \<Rightarrow> string list \<Rightarrow> string" where
  "py_join sep [] = []"
| "py_join sep [x] = x"
| "py_join sep (x # y # ys) = x @ sep @ py_join sep (y # ys)"

section \<open>Chunking of long text (\<open>translate_text\<close>, the branch for long text)\<close>

definition max_chunk_length :: nat where
  "max_chunk_length = 4000"

definition close_chunk :: "string list \<Rightarrow> string \<Rightarrow> string list" where
  \<comment> \<open>\<open>if current_chunk: chunks.append(current_chunk.strip())\<close>\<close>
  "close_chunk chunks cur = (if cur \<noteq> [] then chunks @ [py_strip cur] else chunks)"

definition word_step :: "nat \<Rightarrow> string list \<times> string \<Rightarrow> string \<Rightarrow> string list \<times> string" where
  "word_step mcl st word =
     (case st of (chunks, word_chunk) \<Rightarrow>
        if length word_chunk + length word + 1 > mcl
        then (close_chunk chunks word_chunk, word @ '' '')
        else (chunks, word_chunk @ word @ '' ''))"

definition sentence_step :: "nat \<Rightarrow> string list \<times> string \<Rightarrow> string \<Rightarrow> string list \<times> string" where
  "sentence_step mcl st sentence =
     (case st of (chunks, current_chunk) \<Rightarrow>
        let sentence_with_dot = sentence @ ''. '' in
        if length current_chunk + length sentence_with_dot > mcl
        then
          (let chunks1 = close_chunk chunks current_chunk in
           if length sentence > mcl
           then
             (case foldl (word_step mcl) (chunks1, []) (py_split sentence) of
                (chunks2, word_chunk) \<Rightarrow>
                  (chunks2, if word_chunk \<noteq> [] then word_chunk else current_chunk))
           else (chunks1, sentence_with_dot))
        else (chunks, current_chunk @ sentence_with_dot))"

definition force_split :: "nat \<Rightarrow> string \<Rightarrow> string list" where
  \<comment> \<open>\<open>[text_clean[i:i+mcl] for i in range(0, len(text_clean), mcl)]\<close>\<close>
  "force_split mcl s =
     map (\<lambda>k. take mcl (drop (k * mcl) s)) [0 ..< (length s + mcl - 1) div mcl]"

definition chunk_text :: "nat \<Rightarrow> string \<Rightarrow> string list" where
  "chunk_text mcl text_clean =
     (case foldl (sentence_step mcl) ([], []) (py_split_dot text_clean) of
        (chunks, current_chunk) \<Rightarrow>
          (let chunks' = close_chunk chunks current_chunk
           in if chunks' = [] then force_split mcl text_clean else chunks'))"

section \<open>Translation cache\<close>

definition CACHE_DIR :: string where
  "CACHE_DIR = ''.cache''"

definition MAX_RETRIES :: nat where
  "MAX_RETRIES = 5"

definition RETRY_DELAY :: nat where
  "RETRY_DELAY = 3"

definition TRANSLATION_DELAY :: nat where
  "TRANSLATION_DELAY = 1"

definition os_path_join :: "string \<Rightarrow> string \<Rightarrow> string" where
  \<comment> \<open>POSIX \<open>os.path.join\<close> of two components\<close>
  "os_path_join a b =
     (if b \<noteq> [] \<and> hd b = CHR ''/'' then b
      else if a = [] \<or> last a = CHR ''/'' then a @ b
      else a @ ''/'' @ b)"

text \<open>
  \<open>hashlib.md5(...).hexdigest()\<close> is library code: the hash is a parameter \<open>md5\<close> of
  everything that derives a cache key.
\<close>

definition get_cache_key :: "(string \<Rightarrow> string) \<Rightarrow> string \<Rightarrow> string \<Rightarrow> string" where
  "get_cache_key md5 text target_lang =
     (let content_hash = md5 (text @ ''_'' @ target_lang)
      in os_path_join CACHE_DIR (''trans_'' @ target_lang @ ''_'' @ content_hash @ ''.json''))"

datatype cache_op = Lookup string | Store string

text \<open>
  The state the translator works on: the cache files (path to the pair of the JSON fields
  \<open>original\<close> and \<open>translated\<close>), the number of live calls made to the translation
  provider so far, the seconds spent in \<open>time.sleep\<close>, the number of random draws made so
  far, the log of cache accesses by key, and the behaviour of the disk: \<open>write_ok w n\<close>
  tells whether a write of a cache file succeeds when it is the access number \<open>n\<close> of
  the log.
\<close>

record world =
  cache :: "string \<rightharpoonup> string \<times> string"
  calls :: nat
  slept :: nat
  draws :: nat
  oplog :: "cache_op list"
  write_ok :: "nat \<Rightarrow> bool"

definition load_from_cache ::
  "(string \<Rightarrow> string) \<Rightarrow> string \<Rightarrow> string \<Rightarrow> world \<Rightarrow> string option \<times> world" where
  "load_from_cache md5 text target_lang w =
     (let cache_file = get_cache_key md5 text target_lang
      in (map_option snd (cache w cache_file), w\<lparr>oplog := oplog w @ [Lookup cache_file]\<rparr>))"

text \<open>
  \<open>save_to_cache\<close> swallows every exception of the write: a write that fails stores
  nothing. (A file the failed write left behind does not parse and reads as a miss; no
  write follows a hit on the same key, so the model keeps the cache as it was.)
\<close>

definition save_to_cache ::
  "(string \<Rightarrow> string) \<Rightarrow> string \<Rightarrow> string \<Rightarrow> string \<Rightarrow> world \<Rightarrow> world" where
  "save_to_cache md5 text target_lang translated w =
     (let cache_file = get_cache_key md5 text target_lang
      in if write_ok w (length (oplog w))
         then w\<lparr>cache := (cache w)(cache_file \<mapsto> (take 100 text, translated)),
                oplog := oplog w @ [Store cache_file]\<rparr>
         else w\<lparr>oplog := oplog w @ [Store cache_file]\<rparr>)"

definition time_sleep :: "nat \<Rightarrow> world \<Rightarrow> world" where
  "time_sleep n w = w\<lparr>slept := slept w + n\<rparr>"

definition truthy :: "string option \<Rightarrow> bool" where
  \<comment> \<open>\<open>if cached:\<close> holds for a string that is neither \<open>None\<close> nor empty\<close>
  "truthy r = (case r of None \<Rightarrow> False | Some s \<Rightarrow> s \<noteq> [])"

section \<open>Translator\<close>

text \<open>
  One live call \<open>GoogleTranslator(source, target).translate(text)\<close> either returns a string
  (\<open>None\<close> behaves as the empty string in the test that follows it) or raises. The provider
  is a parameter \<open>tr\<close>: the answer to the \<open>n\<close>-th live call of the run.
\<close>

datatype response = Returned string | Raised string

type_synonym provider = "nat \<Rightarrow> string \<Rightarrow> string \<Rightarrow> string \<Rightarrow> response"

fun attempt_loop ::
  "(string \<Rightarrow> string) \<Rightarrow> provider \<Rightarrow> string \<Rightarrow> string \<Rightarrow> string \<Rightarrow> bool \<Rightarrow> nat list \<Rightarrow> world
     \<Rightarrow> string \<times> world" where
  "attempt_loop md5 tr text source_lang target_lang use_cache [] w = (text, w)"
| "attempt_loop md5 tr text source_lang target_lang use_cache (attempt # rest) w =
     (let w1 = w\<lparr>calls := calls w + 1\<rparr> in
      case tr (calls w) source_lang target_lang text of
        Returned translated \<Rightarrow>
          if translated \<noteq> [] \<and> translated \<noteq> text
          then (translated,
                time_sleep TRANSLATION_DELAY
                  (if use_cache then save_to_cache md5 text target_lang translated w1 else w1))
          else attempt_loop md5 tr text source_lang target_lang use_cache rest w1
      | Raised e \<Rightarrow>
          if attempt < MAX_RETRIES - 1
          then attempt_loop md5 tr text source_lang target_lang use_cache rest
                 (time_sleep (RETRY_DELAY * (attempt + 1)) w1)
          else (text, w1))"

definition translate_text_single ::
  "(string \<Rightarrow> string) \<Rightarrow> provider \<Rightarrow> string \<Rightarrow> string \<Rightarrow> string \<Rightarrow> bool \<Rightarrow> world
     \<Rightarrow> string \<times> world" where
  "translate_text_single md5 tr text source_lang target_lang use_cache w =
     (if text = [] \<or> py_strip text = [] then (text, w)
      else
        (case (if use_cache then load_from_cache md5 text target_lang w else (None, w)) of
           (cached, w1) \<Rightarrow>
             if truthy cached then (the cached, w1)
             else attempt_loop md5 tr text source_lang target_lang use_cache
                    [0 ..< MAX_RETRIES] w1))"

fun translate_chunks ::
  "(string \<Rightarrow> string) \<Rightarrow> provider \<Rightarrow> string list \<Rightarrow> string \<Rightarrow> string \<Rightarrow> bool \<Rightarrow> world
     \<Rightarrow> string list \<times> world" where
  "translate_chunks md5 tr [] source_lang target_lang use_cache w = ([], w)"
| "translate_chunks md5 tr (chunk # rest) source_lang target_lang use_cache w =
     (case translate_text_single md5 tr chunk source_lang target_lang use_cache w of
        (chunk_result, w1) \<Rightarrow>
          (case translate_chunks md5 tr rest source_lang target_lang use_cache
                  (time_sleep TRANSLATION_DELAY w1) of
             (translated_chunks, w2) \<Rightarrow> (chunk_result # translated_chunks, w2)))"

definition MAX_RECURSION_DEPTH :: nat where
  "MAX_RECURSION_DEPTH = 10"

definition translate_text ::
  "(string \<Rightarrow> string) \<Rightarrow> provider \<Rightarrow> string \<Rightarrow> string \<Rightarrow> string \<Rightarrow> bool \<Rightarrow> nat \<Rightarrow> world
     \<Rightarrow> string \<times> world" where
  "translate_text md5 tr text source_lang target_lang use_cache recursion_depth w =
     (if recursion_depth > MAX_RECURSION_DEPTH then (text, w)
      else if text = [] \<or> py_strip text = [] then (text, w)
      else
        (case (if use_cache then load_from_cache md5 text target_lang w else (None, w)) of
           (cached, w1) \<Rightarrow>
             if truthy cached then (the cached, w1)
             else
               (let text_clean = py_join '' '' (py_split text) in
                if length text_clean > max_chunk_length
                then
                  (case translate_chunks md5 tr (chunk_text max_chunk_length text_clean)
                          source_lang target_lang use_cache w1 of
                     (translated_chunks, w2) \<Rightarrow>
                       (let result = py_join '' '' translated_chunks
                        in (result,
                            if use_cache then save_to_cache md5 text target_lang result w2
                            else w2)))
                else translate_text_single md5 tr text_clean source_lang target_lang
                       use_cache w1)))"

section \<open>Slug and excerpt\<close>

definition py_lower_char :: "char \<Rightarrow> char" where
  "py_lower_char c =
     (let n = (of_char c :: nat)
      in if (65 \<le> n \<and> n \<le> 90) \<or> (192 \<le> n \<and> n \<le> 222 \<and> n \<noteq> 215)
         then char_of (n + 32) else c)"

definition py_lower :: "string \<Rightarrow> string" where
  "py_lower s = map py_lower_char s"

definition py_isword :: "char \<Rightarrow> bool" where
  \<comment> \<open>the regex class \<open>\w\<close> on \<open>str\<close>: alphanumeric characters and the underscore\<close>
  "py_isword c =
     (let n = (of_char c :: nat)
      in (48 \<le> n \<and> n \<le> 57) \<or> (65 \<le> n \<and> n \<le> 90) \<or> n = 95 \<or> (97 \<le> n \<and> n \<le> 122)
         \<or> n = 170 \<or> n = 178 \<or> n = 179 \<or> n = 181 \<or> n = 185 \<or> n = 186
         \<or> (188 \<le> n \<and> n \<le> 190) \<or> (192 \<le> n \<and> n \<le> 214) \<or> (216 \<le> n \<and> n \<le> 246)
         \<or> 248 \<le> n)"

definition re_sub_char :: "(char \<Rightarrow> bool) \<Rightarrow> string \<Rightarrow> string \<Rightarrow> string" where
  \<comment> \<open>\<open>re.sub\<close> of a pattern that is one character class: every matching character is
      replaced\<close>
  "re_sub_char cls repl s = concat (map (\<lambda>c. if cls c then repl else [c]) s)"

function re_sub_plus :: "(char \<Rightarrow> bool) \<Rightarrow> string \<Rightarrow> string \<Rightarrow> string" where
  \<comment> \<open>\<open>re.sub\<close> of a pattern \<open>[...]+\<close>: scanning from the left, every match is a run of class
      characters taken as long as it goes, and is replaced as a whole\<close>
  "re_sub_plus cls repl [] = []"
| "re_sub_plus cls repl (c # cs) =
     (if cls c then repl @ re_sub_plus cls repl (dropWhile cls cs)
      else c # re_sub_plus cls repl cs)"
  by pat_completeness auto
termination
  by (relation "measure (\<lambda>(cls, repl, s). length s)")
     (auto simp: less_Suc_eq_le length_dropWhile_le)

definition generate_slug :: "string \<Rightarrow> string" where
  "generate_slug title =
     (let slug = re_sub_char (\<lambda>c. \<not> (py_isword c \<or> py_isspace c \<or> c = CHR ''-'')) []
                   (py_lower title);
          slug = re_sub_plus (\<lambda>c. c = CHR ''-'' \<or> py_isspace c) ''-'' slug
      in take 100 slug)"

definition py_slice_to :: "string \<Rightarrow> int \<Rightarrow> string" where
  \<comment> \<open>\<open>s[:k]\<close>; a negative \<open>k\<close> counts from the end\<close>
  "py_slice_to s k = (if 0 \<le> k then take (nat k) s else take (nat (int (length s) + k)) s)"

fun py_rfind :: "char \<Rightarrow> string \<Rightarrow> int" where
  \<comment> \<open>\<open>s.rfind(c)\<close>: the last position of \<open>c\<close>, or \<open>-1\<close>\<close>
  "py_rfind c [] = - 1"
| "py_rfind c (x # xs) =
     (let r = py_rfind c xs in if 0 \<le> r then r + 1 else if x = c then 0 else - 1)"

datatype py_error = ValueError | IndexError | KeyError | LibraryError string

text \<open>
  The collaborators of the build that are library code: the hash, the translation provider,
  the source of randomness (\<open>x_rand n\<close> is the \<open>n\<close>-th raw draw), the three uses of
  BeautifulSoup (unwrapping anchors, appending the backlink, \<open>get_text(strip=True)\<close>), each of
  which may raise, and the floating-point test \<open>last_period > max_length * 0.7\<close>.
\<close>

record externals =
  x_md5 :: "string \<Rightarrow> string"
  x_translate :: provider
  x_rand :: "nat \<Rightarrow> nat"
  x_unwrap_anchors :: "string \<Rightarrow> py_error + string"
  x_append_backlink :: "string \<Rightarrow> string \<Rightarrow> string \<Rightarrow> string \<Rightarrow> py_error + string"
  x_get_text :: "string \<Rightarrow> py_error + string"
  x_not_too_early :: "int \<Rightarrow> int \<Rightarrow> bool"

definition extract_meta_description :: "externals \<Rightarrow> string \<Rightarrow> int \<Rightarrow> py_error + string" where
  "extract_meta_description X content max_length =
     (if content = [] then Inr []
      else
        (case x_get_text X content of
           Inl e \<Rightarrow> Inl e
         | Inr text \<Rightarrow>
             if int (length text) > max_length
             then
               (let truncated = py_slice_to text max_length;
                    last_period = py_rfind CHR ''.'' truncated
                in if x_not_too_early X last_period max_length
                   then Inr (py_slice_to truncated (last_period + 1))
                   else Inr (truncated @ ''...''))
             else Inr text))"

definition clean_content :: "externals \<Rightarrow> string \<Rightarrow> py_error + string" where
  "clean_content X content = (if content = [] then Inr [] else x_unwrap_anchors X content)"

definition inject_backlink ::
  "externals \<Rightarrow> string \<Rightarrow> string \<Rightarrow> string \<Rightarrow> string \<Rightarrow> py_error + string" where
  "inject_backlink X content target_url anchor_text lang =
     (if content = [] \<or> target_url = [] then Inr content
      else x_append_backlink X content target_url anchor_text lang)"

section \<open>Progress ledger\<close>

definition OUTPUT_DIR :: string where
  "OUTPUT_DIR = ''output''"

record progress_entry =
  pe_title :: string
  pe_filename :: string
  pe_slug :: string
  pe_meta_description :: string

text \<open>
  The ledger maps a language code to the entries of that language, keyed by the record
  index (the JSON key is the decimal string of the index). \<open>files\<close> is the set of paths
  that exist on disk.
\<close>

type_synonym progress = "string \<rightharpoonup> (nat \<rightharpoonup> progress_entry)"

definition is_post_processed ::
  "string set \<Rightarrow> nat \<Rightarrow> string \<Rightarrow> 'p list \<Rightarrow> progress \<Rightarrow> bool" where
  "is_post_processed files post_index lang_code posts progress =
     (case progress lang_code of
        None \<Rightarrow> False
      | Some entries \<Rightarrow>
          (case entries post_index of
             None \<Rightarrow> False
           | Some post_data \<Rightarrow>
               (let slug = generate_slug (pe_title post_data);
                    filename = slug @ ''.html'';
                    filepath = os_path_join (os_path_join OUTPUT_DIR lang_code) filename
                in filepath \<in> files)))"

section \<open>Processing one article\<close>

record post =
  p_title :: string
  p_content :: string

record lang_config =
  lc_name :: string
  lc_code :: string
  lc_anchors :: "string list"

record article =
  a_title :: string
  a_content :: "string option"
  a_filename :: string
  a_url_path :: "string option"
  a_slug :: string
  a_index :: nat
  a_meta_description :: "string option"
  a_skipped :: bool
  a_related_articles :: "(string \<times> string) list"

definition skipped_article :: "progress_entry \<Rightarrow> nat \<Rightarrow> article" where
  "skipped_article post_data idx =
     \<lparr>a_title = pe_title post_data, a_content = None, a_filename = pe_filename post_data,
      a_url_path = None, a_slug = pe_slug post_data, a_index = idx,
      a_meta_description = None, a_skipped = True, a_related_articles = []\<rparr>"

definition random_choice :: "externals \<Rightarrow> 'a list \<Rightarrow> world \<Rightarrow> (py_error + 'a) \<times> world" where
  "random_choice X seq w =
     (if seq = [] then (Inl IndexError, w)
      else (Inr (seq ! (x_rand X (draws w) mod length seq)), w\<lparr>draws := draws w + 1\<rparr>))"

definition backlink_step ::
  "externals \<Rightarrow> string \<Rightarrow> string \<Rightarrow> lang_config \<Rightarrow> string list \<Rightarrow> world
     \<Rightarrow> (py_error + string) \<times> world" where
  \<comment> \<open>step 3 of \<open>process_single_article\<close>\<close>
  "backlink_step X translated_content lang_code lang_config sitemap_urls w =
     (if sitemap_urls \<noteq> []
      then
        (case random_choice X sitemap_urls w of
           (Inl e, w1) \<Rightarrow> (Inl e, w1)
         | (Inr target_url, w1) \<Rightarrow>
             (case random_choice X (lc_anchors lang_config) w1 of
                (Inl e, w2) \<Rightarrow> (Inl e, w2)
              | (Inr anchor_text, w2) \<Rightarrow>
                  (inject_backlink X translated_content target_url anchor_text lang_code, w2)))
      else (Inr translated_content, w))"

text \<open>
  \<open>process_single_article\<close> returns \<open>None\<close> where the source catches an exception of the
  body and returns \<open>None\<close>. The ledger is the dictionary shared by all workers, so the
  function takes it with the world and returns both. Step 4 of the source sits at a deeper
  indentation than the statements around it; it is read as the sequence of statements that
  follows step 3.
\<close>

definition process_single_article ::
  "externals \<Rightarrow> string set \<Rightarrow> nat \<Rightarrow> post \<Rightarrow> string \<Rightarrow> lang_config \<Rightarrow> string list
     \<Rightarrow> progress \<times> world \<Rightarrow> article option \<times> progress \<times> world" where
  "process_single_article X files post_index post lang_code lang_config sitemap_urls st =
     (case st of (progress, w) \<Rightarrow>
        if is_post_processed files post_index lang_code [post] progress
        then
          (case progress lang_code of
             None \<Rightarrow> (None, progress, w)
           | Some entries \<Rightarrow>
               (case entries post_index of
                  None \<Rightarrow> (None, progress, w)
                | Some post_data \<Rightarrow> (Some (skipped_article post_data post_index), progress, w)))
        else
          (case clean_content X (p_content post) of
             Inl e \<Rightarrow> (None, progress, w)
           | Inr cleaned_content \<Rightarrow>
               (case translate_text (x_md5 X) (x_translate X) (p_title post) ''uz'' lang_code
                       True 0 w of
                  (translated_title, w1) \<Rightarrow>
               (case translate_text (x_md5 X) (x_translate X) cleaned_content ''uz'' lang_code
                       True 0 w1 of
                  (translated_content0, w2) \<Rightarrow>
               (case backlink_step X translated_content0 lang_code lang_config sitemap_urls w2 of
                  (Inl e, w3) \<Rightarrow> (None, progress, w3)
                | (Inr translated_content, w3) \<Rightarrow>
               (case extract_meta_description X translated_content 160 of
                  Inl e \<Rightarrow> (None, progress, w3)
                | Inr meta_description \<Rightarrow>
                    (let slug = generate_slug translated_title;
                         filename = slug @ ''.html'';
                         url_path = slug
                     in case progress lang_code of
                          None \<Rightarrow> (None, progress, w3)
                        | Some entries \<Rightarrow>
                            (Some \<lparr>a_title = translated_title,
                                   a_content = Some translated_content,
                                   a_filename = filename, a_url_path = Some url_path,
                                   a_slug = slug, a_index = post_index,
                                   a_meta_description = Some meta_description,
                                   a_skipped = False, a_related_articles = []\<rparr>,
                             progress(lang_code \<mapsto> entries(post_index \<mapsto>
                               \<lparr>pe_title = translated_title, pe_filename = filename,
                                pe_slug = slug, pe_meta_description = meta_description\<rparr>)),
                             w3))))))))"

section \<open>The pass over one language (\<open>main\<close>)\<close>

fun prepare_tasks ::
  "string set \<Rightarrow> string \<Rightarrow> progress \<Rightarrow> post list \<Rightarrow> (nat \<times> post) list
     \<Rightarrow> article list \<times> (nat \<times> post) list" where
  \<comment> \<open>the loop over \<open>enumerate(posts)\<close>: the articles already done, and the tasks\<close>
  "prepare_tasks files lang_code progress posts [] = ([], [])"
| "prepare_tasks files lang_code progress posts ((idx, post) # rest) =
     (case prepare_tasks files lang_code progress posts rest of
        (processed_posts, tasks) \<Rightarrow>
          if is_post_processed files idx lang_code posts progress
          then
            (case Option.bind (progress lang_code) (\<lambda>entries. entries idx) of
               Some post_data \<Rightarrow> (skipped_article post_data idx # processed_posts, tasks)
             | None \<Rightarrow> (processed_posts, tasks))
          else (processed_posts, (idx, post) # tasks))"

fun collect_results ::
  "externals \<Rightarrow> string set \<Rightarrow> string \<Rightarrow> lang_config \<Rightarrow> string list \<Rightarrow> (nat \<times> post) list
     \<Rightarrow> article list \<times> progress \<times> world \<Rightarrow> article list \<times> progress \<times> world" where
  \<comment> \<open>the loop over \<open>as_completed\<close>: the tasks in the order in which they complete\<close>
  "collect_results X files lang_code lang_config sitemap_urls [] acc = acc"
| "collect_results X files lang_code lang_config sitemap_urls ((idx, post) # rest) acc =
     (case acc of (processed_posts, st) \<Rightarrow>
        (case process_single_article X files idx post lang_code lang_config sitemap_urls st of
           (result, st') \<Rightarrow>
             collect_results X files lang_code lang_config sitemap_urls rest
               (case result of
                  Some r \<Rightarrow> (if a_skipped r then processed_posts else processed_posts @ [r], st')
                | None \<Rightarrow> (processed_posts, st'))))"

text \<open>
  The pass of \<open>main\<close> over one language, up to the sort. The workers of the thread pool
  are modelled at the grain of a task: \<open>completion_order\<close> is the list of submitted tasks in
  the order in which they complete, and each task runs on the state its predecessors in
  that order left. Saving the ledger to its file is not part of the model.
\<close>

definition init_language :: "string \<Rightarrow> progress \<Rightarrow> progress" where
  \<comment> \<open>\<open>if lang_code not in progress: progress[lang_code] = {}\<close>\<close>
  "init_language lang_code progress0 =
     (if progress0 lang_code = None then progress0(lang_code \<mapsto> Map.empty) else progress0)"

definition language_pass ::
  "externals \<Rightarrow> string set \<Rightarrow> post list \<Rightarrow> string \<Rightarrow> lang_config \<Rightarrow> string list
     \<Rightarrow> (nat \<times> post) list \<Rightarrow> progress \<times> world \<Rightarrow> article list \<times> progress \<times> world" where
  "language_pass X files posts lang_code lang_config sitemap_urls completion_order st =
     (case st of (progress0, w) \<Rightarrow>
        let progress = init_language lang_code progress0
        in case prepare_tasks files lang_code progress posts (enumerate 0 posts) of
             (done_posts, tasks) \<Rightarrow>
               (case collect_results X files lang_code lang_config sitemap_urls
                       completion_order (done_posts, progress, w) of
                  (processed_posts, st') \<Rightarrow> (sort_key a_index processed_posts, st')))"

definition submitted_tasks ::
  "string set \<Rightarrow> post list \<Rightarrow> string \<Rightarrow> progress \<Rightarrow> (nat \<times> post) list" where
  \<comment> \<open>the tasks \<open>main\<close> submits to the pool for a language\<close>
  "submitted_tasks files posts lang_code progress0 =
     snd (prepare_tasks files lang_code (init_language lang_code progress0) posts
            (enumerate 0 posts))"

text \<open>
  The indices of the tasks whose worker returned \<open>None\<close> in a run: the futures for which
  \<open>main\<close> counts an error.
\<close>

fun failed_workers ::
  "externals \<Rightarrow> string set \<Rightarrow> string \<Rightarrow> lang_config \<Rightarrow> string list \<Rightarrow> (nat \<times> post) list
     \<Rightarrow> progress \<times> world \<Rightarrow> nat list" where
  "failed_workers X files lang_code lang_config sitemap_urls [] st = []"
| "failed_workers X files lang_code lang_config sitemap_urls ((idx, post) # rest) st =
     (case process_single_article X files idx post lang_code lang_config sitemap_urls st of
        (result, st') \<Rightarrow>
          (if result = None then [idx] else [])
          @ failed_workers X files lang_code lang_config sitemap_urls rest st')"

section \<open>Internal links\<close>

definition MIN_INTERNAL_LINKS :: int where
  "MIN_INTERNAL_LINKS = 5"

definition MAX_INTERNAL_LINKS :: int where
  "MAX_INTERNAL_LINKS = 10"

definition random_randint :: "externals \<Rightarrow> int \<Rightarrow> int \<Rightarrow> world \<Rightarrow> (py_error + int) \<times> world" where
  \<comment> \<open>\<open>random.randint(a, b)\<close> raises \<open>ValueError\<close> on an empty range\<close>
  "random_randint X a b w =
     (if a > b then (Inl ValueError, w)
      else (Inr (a + int (x_rand X (draws w) mod nat (b - a + 1))), w\<lparr>draws := draws w + 1\<rparr>))"

fun sample_loop :: "externals \<Rightarrow> 'a list \<Rightarrow> nat \<Rightarrow> world \<Rightarrow> 'a list \<times> world" where
  "sample_loop X pool 0 w = ([], w)"
| "sample_loop X pool (Suc k) w =
     (let j = x_rand X (draws w) mod length pool
      in case sample_loop X (take j pool @ drop (Suc j) pool) k (w\<lparr>draws := draws w + 1\<rparr>) of
           (result, w') \<Rightarrow> (pool ! j # result, w'))"

definition random_sample ::
  "externals \<Rightarrow> 'a list \<Rightarrow> nat \<Rightarrow> world \<Rightarrow> (py_error + 'a list) \<times> world" where
  \<comment> \<open>\<open>random.sample(population, k)\<close>: \<open>k\<close> draws without replacement; \<open>ValueError\<close> when the
      sample is larger than the population\<close>
  "random_sample X population k w =
     (if k > length population then (Inl ValueError, w)
      else (case sample_loop X population k w of (result, w') \<Rightarrow> (Inr result, w')))"

definition assign_internal_links ::
  "externals \<Rightarrow> nat \<Rightarrow> nat \<Rightarrow> nat \<Rightarrow> world \<Rightarrow> (py_error + nat list) \<times> world" where
  "assign_internal_links X current_index total_posts num_links w =
     (let available_indices = filter (\<lambda>i. i \<noteq> current_index) [0 ..< total_posts]
      in if length available_indices < num_links then (Inr available_indices, w)
         else random_sample X available_indices num_links w)"

function py_replace :: "string \<Rightarrow> string \<Rightarrow> string \<Rightarrow> string" where
  \<comment> \<open>\<open>s.replace(old, new)\<close>\<close>
  "py_replace old new s =
     (if old = [] then new @ concat (map (\<lambda>c. c # new) s)
      else if s = [] then []
      else if take (length old) s = old then new @ py_replace old new (drop (length old) s)
      else hd s # py_replace old new (tl s))"
  by pat_completeness auto
termination
  by (relation "measure (\<lambda>(old, new, s). length s)") auto

declare py_replace.simps [simp del]

definition related_entry :: "article \<Rightarrow> string \<times> string" where
  \<comment> \<open>the \<open>title\<close> and \<open>filename\<close> recorded for a related article\<close>
  "related_entry p =
     (a_title p,
      case a_url_path p of Some u \<Rightarrow> u | None \<Rightarrow> py_replace ''.html'' [] (a_filename p))"

fun link_loop ::
  "externals \<Rightarrow> article list \<Rightarrow> article list \<Rightarrow> world \<Rightarrow> (py_error + article list) \<times> world" where
  \<comment> \<open>step 5 of \<open>main\<close>: \<open>processed_posts\<close> is the sorted list, the third argument the
      articles still to be linked\<close>
  "link_loop X processed_posts [] w = (Inr [], w)"
| "link_loop X processed_posts (post # rest) w =
     (let current_idx = a_index post in
      case random_randint X MIN_INTERNAL_LINKS
             (min MAX_INTERNAL_LINKS (int (length processed_posts) - 1)) w of
        (Inl e, w1) \<Rightarrow> (Inl e, w1)
      | (Inr num_links, w1) \<Rightarrow>
          (case assign_internal_links X current_idx (length processed_posts) (nat num_links) w1 of
             (Inl e, w2) \<Rightarrow> (Inl e, w2)
           | (Inr related_indices, w2) \<Rightarrow>
               (case link_loop X processed_posts rest w2 of
                  (Inl e, w3) \<Rightarrow> (Inl e, w3)
                | (Inr linked, w3) \<Rightarrow>
                    (Inr (post\<lparr>a_related_articles :=
                                 map (\<lambda>i. related_entry (processed_posts ! i)) related_indices\<rparr>
                          # linked), w3))))"

definition assign_links_pass ::
  "externals \<Rightarrow> article list \<Rightarrow> world \<Rightarrow> (py_error + article list) \<times> world" where
  "assign_links_pass X processed_posts w = link_loop X processed_posts processed_posts w"

section \<open>The slug as the specification words it\<close>

text \<open>
  The specification describes the slug in four steps: lowercase the title, keep only the
  characters of the word, space and hyphen classes, collapse every run of whitespace or
  hyphens to a single hyphen, truncate to 100 characters.
\<close>

definition slug_separator :: "char \<Rightarrow> bool" where
  "slug_separator c = (py_isspace c \<or> c = CHR ''-'')"

definition slug_kept :: "char \<Rightarrow> bool" where
  "slug_kept c = (py_isword c \<or> py_isspace c \<or> c = CHR ''-'')"

fun collapse_runs :: "string \<Rightarrow> string" where
  "collapse_runs [] = []"
| "collapse_runs [c] = [if slug_separator c then CHR ''-'' else c]"
| "collapse_runs (c # d # cs) =
     (if slug_separator c
      then (if slug_separator d then collapse_runs (d # cs) else CHR ''-'' # collapse_runs (d # cs))
      else c # collapse_runs (d # cs))"

definition slug_of_title :: "string \<Rightarrow> string" where
  "slug_of_title title = take 100 (collapse_runs (filter slug_kept (py_lower title)))"

section \<open>Auxiliary notions\<close>

definition attempt_fails :: "string \<Rightarrow> response \<Rightarrow> bool" where
  "attempt_fails text r = (case r of Raised e \<Rightarrow> True | Returned t \<Rightarrow> t = [] \<or> t = text)"

definition op_key :: "cache_op \<Rightarrow> string" where
  "op_key op = (case op of Lookup k \<Rightarrow> k | Store k \<Rightarrow> k)"

definition normalize_ws :: "string \<Rightarrow> string" where
  \<comment> \<open>\<open>' '.join(text.split())\<close>\<close>
  "normalize_ws s = py_join '' '' (py_split s)"

definition empty_world :: world where
  \<comment> \<open>nothing cached, a disk on which every write succeeds\<close>
  "empty_world =
     \<lparr>cache = Map.empty, calls = 0, slept = 0, draws = 0, oplog = [], write_ok = (\<lambda>n. True)\<rparr>"

definition has_nonspace :: "string \<Rightarrow> bool" where
  "has_nonspace s = (\<exists>c \<in> set s. \<not> py_isspace c)"


text \<open>
  The texts \<open>translate_text\<close> hands to \<open>translate_text_single\<close>: none for an empty or
  whitespace-only text, else the normalized text, or its chunks when it is longer than the
  threshold.
\<close>

definition translation_units :: "string \<Rightarrow> string list" where
  "translation_units text =
     (if py_strip text = [] then []
      else if max_chunk_length < length (normalize_ws text)
      then chunk_text max_chunk_length (normalize_ws text) else [normalize_ws text])"

definition provider_succeeds_on :: "provider \<Rightarrow> string \<Rightarrow> string \<Rightarrow> string \<Rightarrow> bool" where
  \<comment> \<open>whenever it is called on \<open>s\<close>, the provider returns a translation\<close>
  "provider_succeeds_on tr source_lang target_lang s =
     (\<forall>n. \<exists>t. tr n source_lang target_lang s = Returned t \<and> t \<noteq> [] \<and> t \<noteq> s)"

definition provider_fails_on :: "provider \<Rightarrow> string \<Rightarrow> string \<Rightarrow> string \<Rightarrow> bool" where
  \<comment> \<open>whenever it is called on \<open>s\<close>, the provider raises or returns an empty or unchanged
      result\<close>
  "provider_fails_on tr source_lang target_lang s =
     (\<forall>n. attempt_fails s (tr n source_lang target_lang s))"

definition uncached :: "(string \<Rightarrow> string) \<Rightarrow> world \<Rightarrow> string \<Rightarrow> string \<Rightarrow> bool" where
  \<comment> \<open>a lookup of the text is a miss\<close>
  "uncached md5 w target_lang s =
     (\<not> truthy (map_option snd (cache w (get_cache_key md5 s target_lang))))"

text \<open>A text of 6002 characters: two sentences of 3000 characters each.\<close>

definition long_text :: string where
  "long_text = replicate 3000 CHR ''x'' @ ''. '' @ replicate 3000 CHR ''y''"

definition echo_provider :: provider where
  "echo_provider n source_lang target_lang s = Returned (''T:'' @ s)"

definition echo_externals :: externals where
  \<comment> \<open>collaborators for evaluation: the provider prefixes its input with \<open>T:\<close>, the
      library calls never raise\<close>
  "echo_externals =
     \<lparr>x_md5 = (\<lambda>s. s), x_translate = echo_provider, x_rand = (\<lambda>n. n),
      x_unwrap_anchors = Inr, x_append_backlink = (\<lambda>c u a l. Inr (c @ u)), x_get_text = Inr,
      x_not_too_early = (\<lambda>l m. 10 * l > 7 * m)\<rparr>"

definition strict_externals :: externals where
  \<comment> \<open>the same, with a parser that refuses the content \<open>bad\<close>\<close>
  "strict_externals =
     echo_externals\<lparr>x_unwrap_anchors :=
       (\<lambda>s. if s = ''bad'' then Inl (LibraryError ''parser'') else Inr s)\<rparr>"

definition two_posts :: "post list" where
  "two_posts = [\<lparr>p_title = ''A'', p_content = ''aa''\<rparr>, \<lparr>p_title = ''B'', p_content = ''bad''\<rparr>]"

definition english :: lang_config where
  "english = \<lparr>lc_name = ''English'', lc_code = ''en'', lc_anchors = [''Source'']\<rparr>"

section \<open>Properties\<close>

subsection \<open>Ledger entries and artifacts\<close>

lemma generate_slug_A_b: "generate_slug ''A b'' = ''a-b''"
  by code_simp

text \<open>
  The entry that \<open>process_single_article\<close> writes for an article names the file
  \<open>slug(title).html\<close>, the path \<open>is_post_processed\<close> looks for.
\<close>

lemma process_single_article_entry_filename:
  assumes "process_single_article X files idx p lang_code lang_config sitemap_urls (progress, w)
             = (Some a, progress', w')"
    and "\<not> a_skipped a"
  shows "\<exists>entries post_data. progress' lang_code = Some entries \<and> entries idx = Some post_data
     \<and> pe_title post_data = a_title a
     \<and> pe_filename post_data = generate_slug (pe_title post_data) @ ''.html''
     \<and> a_filename a = pe_filename post_data"
  using assms
  by (auto simp: process_single_article_def skipped_article_def Let_def
      split: prod.splits option.splits sum.splits if_splits)

text \<open>
  C7: if the ledger has an entry for a language and record index, and the output file
  that the entry refers to (its file name, which is the slug of its title with the
  extension \<open>.html\<close>, in the directory of the language) does not exist, then
  \<open>is_post_processed\<close> is false.
\<close>

theorem is_post_processed_artifact_missing:
  assumes "progress lang_code = Some entries"
    and "entries post_index = Some post_data"
    and "pe_filename post_data = generate_slug (pe_title post_data) @ ''.html''"
    and "os_path_join (os_path_join OUTPUT_DIR lang_code) (pe_filename post_data) \<notin> files"
  shows "\<not> is_post_processed files post_index lang_code posts progress"
  using assms by (simp add: is_post_processed_def)

theorem is_post_processed_artifact_missing_witness:
  "[''en'' \<mapsto> [0 \<mapsto> \<lparr>pe_title = ''A b'', pe_filename = ''a-b.html'', pe_slug = ''a-b'',
        pe_meta_description = ''A b''\<rparr>]] ''en''
     = Some [(0::nat) \<mapsto> \<lparr>pe_title = ''A b'', pe_filename = ''a-b.html'', pe_slug = ''a-b'',
        pe_meta_description = ''A b''\<rparr>]
   \<and> ''a-b.html'' = generate_slug ''A b'' @ ''.html''
   \<and> os_path_join (os_path_join OUTPUT_DIR ''en'') ''a-b.html'' \<notin> {''output/en/other.html''}
   \<and> \<not> is_post_processed {''output/en/other.html''} 0 ''en'' ([] :: post list)
         [''en'' \<mapsto> [0 \<mapsto> \<lparr>pe_title = ''A b'', pe_filename = ''a-b.html'', pe_slug = ''a-b'',
            pe_meta_description = ''A b''\<rparr>]]"
  using is_post_processed_artifact_missing
    [of "[''en'' \<mapsto> [0 \<mapsto> \<lparr>pe_title = ''A b'', pe_filename = ''a-b.html'', pe_slug = ''a-b'',
            pe_meta_description = ''A b''\<rparr>]]" "''en''"
        "[0 \<mapsto> \<lparr>pe_title = ''A b'', pe_filename = ''a-b.html'', pe_slug = ''a-b'',
            pe_meta_description = ''A b''\<rparr>]" 0
        "\<lparr>pe_title = ''A b'', pe_filename = ''a-b.html'', pe_slug = ''a-b'',
            pe_meta_description = ''A b''\<rparr>" "{''output/en/other.html''}" "[] :: post list"]
  by (simp add: generate_slug_A_b os_path_join_def OUTPUT_DIR_def)

subsection \<open>Excerpt\<close>

lemma py_rfind_bounds: "- 1 \<le> py_rfind c s \<and> py_rfind c s < int (length s)"
  by (induction s) (auto simp: Let_def)

lemma length_py_slice_to: "0 \<le> k \<Longrightarrow> int (length (py_slice_to s k)) \<le> k"
  by (simp add: py_slice_to_def)

text \<open>
  C9: for every content and every budget \<open>max_length\<close> (a number of characters, so not
  negative), a meta description that \<open>extract_meta_description\<close> returns has at most
  \<open>max_length + 3\<close> characters.
\<close>

theorem extract_meta_description_length:
  assumes "0 \<le> max_length"
    and "extract_meta_description X content max_length = Inr r"
  shows "int (length r) \<le> max_length + 3"
proof (cases "content = []")
  case True
  with assms show ?thesis by (simp add: extract_meta_description_def)
next
  case False
  with assms(2) obtain body where t: "x_get_text X content = Inr body"
    by (auto simp: extract_meta_description_def split: sum.splits)
  show ?thesis
  proof (cases "int (length body) > max_length")
    case True
    note long = this
    let ?tr = "py_slice_to body max_length"
    let ?lp = "py_rfind CHR ''.'' ?tr"
    have len_tr: "int (length ?tr) \<le> max_length"
      using assms(1) by (rule length_py_slice_to)
    show ?thesis
    proof (cases "x_not_too_early X ?lp max_length")
      case True
      with assms(2) False t long have r: "r = py_slice_to ?tr (?lp + 1)"
        by (simp add: extract_meta_description_def Let_def)
      have "0 \<le> ?lp + 1" using py_rfind_bounds [of "CHR ''.''" ?tr] by simp
      then have "int (length r) \<le> ?lp + 1"
        unfolding r by (rule length_py_slice_to)
      also have "\<dots> \<le> int (length ?tr)"
        using py_rfind_bounds [of "CHR ''.''" ?tr] by simp
      finally show ?thesis using len_tr by simp
    next
      case False
      with assms(2) \<open>content \<noteq> []\<close> t long have "r = ?tr @ ''...''"
        by (simp add: extract_meta_description_def Let_def)
      then show ?thesis using len_tr by simp
    qed
  next
    case False
    with assms(2) \<open>content \<noteq> []\<close> t have "r = body"
      by (simp add: extract_meta_description_def)
    with False show ?thesis by simp
  qed
qed

theorem extract_meta_description_length_witness:
  "(0::int) \<le> 10
   \<and> extract_meta_description
        \<lparr>x_md5 = (\<lambda>s. s), x_translate = (\<lambda>n s t x. Returned x), x_rand = (\<lambda>n. n),
         x_unwrap_anchors = Inr, x_append_backlink = (\<lambda>c u a l. Inr c), x_get_text = Inr,
         x_not_too_early = (\<lambda>l m. 10 * l > 7 * m)\<rparr> ''abcdefg hijklmn'' 10 = Inr ''abcdefg hi...''
   \<and> int (length ''abcdefg hi...'') \<le> 10 + 3"
  using extract_meta_description_length
    [of 10 "\<lparr>x_md5 = (\<lambda>s. s), x_translate = (\<lambda>n s t x. Returned x), x_rand = (\<lambda>n. n),
         x_unwrap_anchors = Inr, x_append_backlink = (\<lambda>c u a l. Inr c), x_get_text = Inr,
         x_not_too_early = (\<lambda>l m. 10 * l > 7 * m)\<rparr>" "''abcdefg hijklmn''" "''abcdefg hi...''"]
  by (simp add: extract_meta_description_def py_slice_to_def Let_def)

subsection \<open>Internal links\<close>

lemma sample_loop_distinct:
  "distinct pool \<Longrightarrow> k \<le> length pool \<Longrightarrow>
   distinct (fst (sample_loop X pool k w)) \<and> set (fst (sample_loop X pool k w)) \<subseteq> set pool
   \<and> length (fst (sample_loop X pool k w)) = k"
proof (induction k arbitrary: pool w)
  case 0
  then show ?case by simp
next
  case (Suc k)
  let ?j = "x_rand X (draws w) mod length pool"
  let ?pool' = "take ?j pool @ drop (Suc ?j) pool"
  let ?w' = "w\<lparr>draws := draws w + 1\<rparr>"
  from Suc.prems have pos: "0 < length pool" by (cases pool) auto
  then have j: "?j < length pool" by simp
  have pool: "pool = take ?j pool @ pool ! ?j # drop (Suc ?j) pool"
    using j by (simp add: id_take_nth_drop)
  have d': "distinct ?pool'" and notin: "pool ! ?j \<notin> set ?pool'" and sub: "set ?pool' \<subseteq> set pool"
    using Suc.prems(1) pool
      apply (metis distinct_append distinct.simps(2) disjoint_insert(1) list.simps(15))
     apply (metis Suc.prems(1) pool Un_iff distinct.simps(2) distinct_append disjoint_iff list.set_intros(1) set_append)
    by (metis pool set_append Un_mono subset_refl set_subset_Cons)
  have len: "k \<le> length ?pool'" using Suc.prems(2) j by simp
  from Suc.IH [OF d' len, of ?w'] have
    ih: "distinct (fst (sample_loop X ?pool' k ?w'))"
      "set (fst (sample_loop X ?pool' k ?w')) \<subseteq> set ?pool'"
      "length (fst (sample_loop X ?pool' k ?w')) = k"
    by simp_all
  show ?case
    using ih notin sub j by (auto simp: Let_def split: prod.splits)
qed

text \<open>
  C10: \<open>assign_internal_links\<close> always returns a list, and the indices in it are pairwise
  distinct, both when it samples and when it returns the whole remaining pool.
\<close>

theorem assign_internal_links_distinct:
  "\<exists>related_indices w'.
     assign_internal_links X current_index total_posts num_links w = (Inr related_indices, w')
     \<and> distinct related_indices"
proof -
  let ?av = "filter (\<lambda>i. i \<noteq> current_index) [0 ..< total_posts]"
  have d: "distinct ?av" by simp
  show ?thesis
  proof (cases "length ?av < num_links")
    case True
    then show ?thesis using d by (simp add: assign_internal_links_def)
  next
    case False
    then have k: "num_links \<le> length ?av" by simp
    from sample_loop_distinct [OF d k, of X w]
    have "distinct (fst (sample_loop X ?av num_links w))" by simp
    with False k show ?thesis
      by (auto simp: assign_internal_links_def random_sample_def split: prod.splits)
  qed
qed

subsection \<open>Slug\<close>

lemma re_sub_char_delete: "re_sub_char cls [] s = filter (\<lambda>c. \<not> cls c) s"
  by (induction s) (simp_all add: re_sub_char_def)

lemma re_sub_plus_collapse:
  "re_sub_plus (\<lambda>c. c = CHR ''-'' \<or> py_isspace c) ''-'' s = collapse_runs s"
proof (induction s rule: collapse_runs.induct)
  case 1
  then show ?case by simp
next
  case (2 c)
  then show ?case by (simp add: slug_separator_def)
next
  case (3 c d cs)
  then show ?case by (auto simp: slug_separator_def)
qed

text \<open>
  C8: for every title, \<open>generate_slug\<close> yields the slug the specification describes:
  the lowercased title, without the characters outside the word, space and hyphen
  classes, with every run of whitespace or hyphens collapsed to one hyphen, truncated to
  100 characters.
\<close>

theorem generate_slug_refines: "generate_slug title = slug_of_title title"
proof -
  have "slug_kept = (\<lambda>c. py_isword c \<or> py_isspace c \<or> c = CHR ''-'')"
    by (rule ext) (simp add: slug_kept_def)
  then show ?thesis
    by (simp add: generate_slug_def slug_of_title_def re_sub_char_delete re_sub_plus_collapse)
qed

subsection \<open>Number of internal links\<close>

text \<open>
  C5: with three articles in the sorted list, \<open>random.randint(5, min(10, 3 - 1))\<close> is a
  draw from an empty range: the linking step of \<open>main\<close> raises \<open>ValueError\<close> at the first
  article and assigns no cross-references at all.
\<close>

theorem assign_links_pass_three_articles:
  "fst (assign_links_pass X [a0, a1, a2] w) = Inl ValueError"
  by (simp add: assign_links_pass_def random_randint_def MIN_INTERNAL_LINKS_def
      MAX_INTERNAL_LINKS_def)

subsection \<open>Order of the results of a pass\<close>

lemma is_post_processed_posts: 
  "is_post_processed files i lang_code posts progress = is_post_processed files i lang_code posts' progress"
  by (simp add: is_post_processed_def)

lemma is_post_processed_entry:
  "is_post_processed files i lang_code posts progress \<Longrightarrow>
   \<exists>post_data. Option.bind (progress lang_code) (\<lambda>entries. entries i) = Some post_data"
  by (auto simp: is_post_processed_def split: option.splits)

lemma prepare_tasks_done:
  "map a_index (fst (prepare_tasks files lang_code progress posts ts))
     = filter (\<lambda>i. is_post_processed files i lang_code posts progress) (map fst ts)"
proof (induction ts)
  case Nil
  then show ?case by simp
next
  case (Cons t ts)
  obtain idx p where t: "t = (idx, p)" by (cases t)
  show ?case
  proof (cases "is_post_processed files idx lang_code posts progress")
    case True
    from is_post_processed_entry [OF True] obtain post_data
      where "Option.bind (progress lang_code) (\<lambda>entries. entries idx) = Some post_data" ..
    with True Cons.IH t show ?thesis
      by (simp add: skipped_article_def case_prod_beta)
  next
    case False
    with Cons.IH t show ?thesis by (simp add: case_prod_beta)
  qed
qed

lemma prepare_tasks_tasks:
  "snd (prepare_tasks files lang_code progress posts ts)
     = filter (\<lambda>t. \<not> is_post_processed files (fst t) lang_code posts progress) ts"
proof (induction ts)
  case Nil
  then show ?case by simp
next
  case (Cons t ts)
  obtain idx p where t: "t = (idx, p)" by (cases t)
  with Cons.IH show ?case
    by (simp add: case_prod_beta split: option.splits)
qed

lemma process_single_article_index:
  "fst (process_single_article X files idx p lang_code lang_config sitemap_urls st) = Some a
   \<Longrightarrow> a_index a = idx"
  by (auto simp: process_single_article_def skipped_article_def Let_def
      split: prod.splits option.splits sum.splits if_splits)

lemma process_single_article_progress:
  assumes "process_single_article X files idx p lang_code lang_config sitemap_urls (progress, w)
             = (r, progress', w')"
  shows "(progress lang_code \<noteq> None \<longrightarrow> progress' lang_code \<noteq> None)
     \<and> (\<forall>j. j \<noteq> idx \<longrightarrow>
            is_post_processed files j lang_code posts progress'
              = is_post_processed files j lang_code posts progress)"
  using assms
  by (auto simp: process_single_article_def is_post_processed_def Let_def
      split: prod.splits option.splits sum.splits if_splits)

lemma map_fst_filter: "map fst (filter (\<lambda>t. P (fst t)) xs) = filter P (map fst xs)"
  by (induction xs) auto

lemma map_fst_enumerate_0: "map fst (enumerate 0 xs) = [0 ..< length xs]"
  by (simp add: enumerate_eq_zip)


lemma process_single_article_not_skipped:
  assumes "\<not> is_post_processed files idx lang_code [p] progress"
    and "fst (process_single_article X files idx p lang_code lang_config sitemap_urls
                (progress, w)) = Some a"
  shows "\<not> a_skipped a"
  using assms
  by (auto simp: process_single_article_def Let_def
      split: prod.splits option.splits sum.splits if_splits)

lemma failed_workers_subset:
  "set (failed_workers X files lang_code lang_config sitemap_urls ts st) \<subseteq> fst ` set ts"
proof (induction ts arbitrary: st)
  case Nil
  then show ?case by simp
next
  case (Cons t ts)
  obtain idx p where t: "t = (idx, p)" by (cases t)
  obtain r st' where r: "process_single_article X files idx p lang_code lang_config sitemap_urls st
    = (r, st')" by (cases "process_single_article X files idx p lang_code lang_config sitemap_urls st")
  from Cons.IH [of st'] t r show ?case by auto
qed

lemma collect_results_exact:
  "distinct (map fst ts) \<Longrightarrow>
   \<forall>t \<in> set ts. \<not> is_post_processed files (fst t) lang_code ([] :: post list) progress \<Longrightarrow>
   map a_index (fst (collect_results X files lang_code lang_config sitemap_urls ts
                       (pp, progress, w)))
     = map a_index pp
       @ filter (\<lambda>i. i \<notin> set (failed_workers X files lang_code lang_config sitemap_urls ts
                                   (progress, w)))
           (map fst ts)"
proof (induction ts arbitrary: pp progress w)
  case Nil
  then show ?case by simp
next
  case (Cons t ts)
  obtain idx p where t: "t = (idx, p)" by (cases t)
  obtain r progress' w' where r: "process_single_article X files idx p lang_code lang_config
    sitemap_urls (progress, w) = (r, progress', w')"
    by (cases "process_single_article X files idx p lang_code lang_config sitemap_urls (progress, w)")
  let ?F = "failed_workers X files lang_code lang_config sitemap_urls ts (progress', w')"
  from Cons.prems(2) t have pending: "\<not> is_post_processed files idx lang_code [p] progress"
    using is_post_processed_posts [of files idx lang_code "[p]" progress "[] :: post list"] by simp
  from process_single_article_progress [OF r, of "[] :: post list"]
  have same: "\<And>j. j \<noteq> idx \<Longrightarrow> is_post_processed files j lang_code ([] :: post list) progress'
                = is_post_processed files j lang_code ([] :: post list) progress"
    by simp
  from Cons.prems(1) t have fresh: "idx \<notin> fst ` set ts" and d: "distinct (map fst ts)" by auto
  have rest: "\<forall>t \<in> set ts. \<not> is_post_processed files (fst t) lang_code ([] :: post list) progress'"
  proof
    fix u assume u: "u \<in> set ts"
    with fresh have "fst u \<noteq> idx" by auto
    with same [of "fst u"] Cons.prems(2) u show
      "\<not> is_post_processed files (fst u) lang_code ([] :: post list) progress'" by simp
  qed
  have notF: "idx \<notin> set ?F"
    using failed_workers_subset [of X files lang_code lang_config sitemap_urls ts "(progress', w')"]
      fresh by auto
  have tail: "filter (\<lambda>i. i \<notin> set (xs @ ?F)) (map fst ts) = filter (\<lambda>i. i \<notin> set ?F) (map fst ts)"
    if "set xs \<subseteq> {idx}" for xs
    using that fresh by (intro filter_cong) auto
  show ?case
  proof (cases r)
    case None
    then have "collect_results X files lang_code lang_config sitemap_urls (t # ts) (pp, progress, w)
        = collect_results X files lang_code lang_config sitemap_urls ts (pp, progress', w')"
      using t r by simp
    moreover have "failed_workers X files lang_code lang_config sitemap_urls (t # ts) (progress, w)
        = [idx] @ ?F" using t r None by simp
    ultimately show ?thesis
      using Cons.IH [OF d rest, of pp w'] t tail [of "[idx]"] by simp
  next
    case (Some a)
    with r have "fst (process_single_article X files idx p lang_code lang_config sitemap_urls
        (progress, w)) = Some a" by simp
    then have idx: "a_index a = idx" and ns: "\<not> a_skipped a"
      using process_single_article_index [of X files idx p lang_code lang_config sitemap_urls
          "(progress, w)" a]
        process_single_article_not_skipped [OF pending, of X lang_config sitemap_urls w a]
      by simp_all
    have "collect_results X files lang_code lang_config sitemap_urls (t # ts) (pp, progress, w)
        = collect_results X files lang_code lang_config sitemap_urls ts (pp @ [a], progress', w')"
      using t r Some ns by simp
    moreover have "failed_workers X files lang_code lang_config sitemap_urls (t # ts) (progress, w)
        = [] @ ?F" using t r Some by simp
    ultimately show ?thesis
      using Cons.IH [OF d rest, of "pp @ [a]" w'] t idx notF tail [of "[]"] by simp
  qed
qed

text \<open>
  C2: whatever the order in which the submitted tasks complete, the articles a language
  pass hands on have strictly ascending indices: they are the indices \<open>0..N-1\<close> of the
  records without those whose worker returned \<open>None\<close> in that run, so exactly \<open>0..N-1\<close>
  when no worker fails.
\<close>

theorem language_pass_indices:
  assumes "mset completion_order = mset (submitted_tasks files posts lang_code progress0)"
  shows "map a_index (fst (language_pass X files posts lang_code lang_config sitemap_urls
             completion_order (progress0, w)))
       = filter (\<lambda>i. i \<notin> set (failed_workers X files lang_code lang_config sitemap_urls
                                   completion_order (init_language lang_code progress0, w)))
           [0 ..< length posts]
     \<and> sorted_wrt (<) (map a_index (fst (language_pass X files posts lang_code lang_config
             sitemap_urls completion_order (progress0, w))))
     \<and> set (failed_workers X files lang_code lang_config sitemap_urls completion_order
               (init_language lang_code progress0, w)) \<subseteq> {0 ..< length posts}
     \<and> (failed_workers X files lang_code lang_config sitemap_urls completion_order
               (init_language lang_code progress0, w) = [] \<longrightarrow>
          map a_index (fst (language_pass X files posts lang_code lang_config sitemap_urls
             completion_order (progress0, w))) = [0 ..< length posts])"
proof -
  let ?progress = "init_language lang_code progress0"
  let ?done = "\<lambda>i. is_post_processed files i lang_code posts ?progress"
  let ?prep = "prepare_tasks files lang_code ?progress posts (enumerate 0 posts)"
  let ?coll = "collect_results X files lang_code lang_config sitemap_urls completion_order
                 (fst ?prep, ?progress, w)"
  let ?F = "failed_workers X files lang_code lang_config sitemap_urls completion_order
              (?progress, w)"
  let ?res = "fst (language_pass X files posts lang_code lang_config sitemap_urls
                     completion_order (progress0, w))"
  have res: "?res = sort_key a_index (fst ?coll)"
    by (simp add: language_pass_def Let_def case_prod_beta)
  have done_idx: "map a_index (fst ?prep) = filter ?done [0 ..< length posts]"
    by (simp add: prepare_tasks_done map_fst_enumerate_0)
  have tasks: "submitted_tasks files posts lang_code progress0
      = filter (\<lambda>t. \<not> ?done (fst t)) (enumerate 0 posts)"
    by (simp add: submitted_tasks_def prepare_tasks_tasks)
  have task_idx: "map fst (submitted_tasks files posts lang_code progress0)
      = filter (\<lambda>i. \<not> ?done i) [0 ..< length posts]"
    unfolding tasks
    using map_fst_filter [of "\<lambda>i. \<not> ?done i" "enumerate 0 posts"]
    by (simp only: map_fst_enumerate_0)
  from assms have "mset (map fst completion_order)
      = mset (map fst (submitted_tasks files posts lang_code progress0))" by simp
  then have eq: "mset (map fst completion_order)
      = mset (filter (\<lambda>i. \<not> ?done i) [0 ..< length posts])"
    by (simp only: task_idx)
  have "set (map fst completion_order) = set (filter (\<lambda>i. \<not> ?done i) [0 ..< length posts])"
    using eq by (rule mset_eq_setD)
  then have order_set: "set (map fst completion_order) = {i. i < length posts \<and> \<not> ?done i}"
    by (simp only: set_filter set_upt) auto
  have "distinct (map fst completion_order)
      = distinct (filter (\<lambda>i. \<not> ?done i) [0 ..< length posts])"
    using eq by (rule mset_eq_imp_distinct_iff)
  then have order_distinct: "distinct (map fst completion_order)"
    by (simp only: distinct_filter distinct_upt)
  have pend: "\<forall>t \<in> set completion_order.
      \<not> is_post_processed files (fst t) lang_code ([] :: post list) ?progress"
  proof
    fix t assume "t \<in> set completion_order"
    then have "fst t \<in> set (map fst completion_order)" by simp
    with order_set have "\<not> ?done (fst t)" by simp
    then show "\<not> is_post_processed files (fst t) lang_code ([] :: post list) ?progress"
      using is_post_processed_posts [of files "fst t" lang_code posts ?progress "[] :: post list"]
      by simp
  qed
  have F_sub: "set ?F \<subseteq> {i. i < length posts \<and> \<not> ?done i}"
    using failed_workers_subset [of X files lang_code lang_config sitemap_urls completion_order
        "(?progress, w)"] order_set by auto
  have coll: "map a_index (fst ?coll)
      = filter ?done [0 ..< length posts] @ filter (\<lambda>i. i \<notin> set ?F) (map fst completion_order)"
    using collect_results_exact [OF order_distinct pend, of X lang_config sitemap_urls "fst ?prep" w]
    by (simp only: done_idx)
  have dist: "distinct (map a_index (fst ?coll))"
    unfolding coll using order_distinct order_set by auto
  have set_coll: "set (map a_index (fst ?coll)) = {i. i < length posts \<and> i \<notin> set ?F}"
    unfolding coll using order_set F_sub by auto
  have sorted: "sorted (map a_index ?res)" unfolding res by simp
  have dist_res: "distinct (map a_index ?res)"
    unfolding res using dist by (simp add: distinct_map)
  have set_res: "set (map a_index ?res) = set (filter (\<lambda>i. i \<notin> set ?F) [0 ..< length posts])"
    unfolding res using set_coll by auto
  have "sorted (filter (\<lambda>i. i \<notin> set ?F) [0 ..< length posts])"
    by (rule sorted_wrt_filter) simp
  then have main: "map a_index ?res = filter (\<lambda>i. i \<notin> set ?F) [0 ..< length posts]"
    using sorted dist_res set_res by (intro sorted_distinct_set_unique) simp_all
  have strict: "sorted_wrt (<) (map a_index ?res)"
    using sorted dist_res by (simp add: strict_sorted_iff)
  have none: "map a_index ?res = [0 ..< length posts]" if "?F = []"
    using main that by simp
  from F_sub have "set ?F \<subseteq> {0 ..< length posts}" by auto
  with main strict none show ?thesis by blast
qed

lemma submitted_two_posts:
  "submitted_tasks {} two_posts ''en'' Map.empty
     = [(0, \<lparr>p_title = ''A'', p_content = ''aa''\<rparr>), (1, \<lparr>p_title = ''B'', p_content = ''bad''\<rparr>)]"
  by (simp add: submitted_tasks_def init_language_def two_posts_def is_post_processed_def
      enumerate_eq_zip upt_rec)

theorem language_pass_indices_witness:
  "mset [(1, \<lparr>p_title = ''B'', p_content = ''bad''\<rparr>), (0, \<lparr>p_title = ''A'', p_content = ''aa''\<rparr>)]
     = mset (submitted_tasks {} two_posts ''en'' Map.empty)
   \<and> failed_workers strict_externals {} ''en'' english []
       [(1, \<lparr>p_title = ''B'', p_content = ''bad''\<rparr>), (0, \<lparr>p_title = ''A'', p_content = ''aa''\<rparr>)]
       (init_language ''en'' Map.empty, empty_world) = [1]
   \<and> map a_index (fst (language_pass strict_externals {} two_posts ''en'' english []
       [(1, \<lparr>p_title = ''B'', p_content = ''bad''\<rparr>), (0, \<lparr>p_title = ''A'', p_content = ''aa''\<rparr>)]
       (Map.empty, empty_world))) = [0]
   \<and> failed_workers echo_externals {} ''en'' english []
       [(1, \<lparr>p_title = ''B'', p_content = ''bad''\<rparr>), (0, \<lparr>p_title = ''A'', p_content = ''aa''\<rparr>)]
       (init_language ''en'' Map.empty, empty_world) = []
   \<and> map a_index (fst (language_pass echo_externals {} two_posts ''en'' english []
       [(1, \<lparr>p_title = ''B'', p_content = ''bad''\<rparr>), (0, \<lparr>p_title = ''A'', p_content = ''aa''\<rparr>)]
       (Map.empty, empty_world))) = [0 ..< length two_posts]"
proof -
  let ?order = "[(1, \<lparr>p_title = ''B'', p_content = ''bad''\<rparr>), (0, \<lparr>p_title = ''A'', p_content = ''aa''\<rparr>)]"
  have m: "mset ?order = mset (submitted_tasks {} two_posts ''en'' Map.empty)"
    by (simp add: submitted_two_posts)
  have f1: "failed_workers strict_externals {} ''en'' english [] ?order
      (init_language ''en'' Map.empty, empty_world) = [1]"
    by code_simp
  have f0: "failed_workers echo_externals {} ''en'' english [] ?order
      (init_language ''en'' Map.empty, empty_world) = []"
    by code_simp
  have n: "length two_posts = 2" by (simp add: two_posts_def)
  have "map a_index (fst (language_pass strict_externals {} two_posts ''en'' english [] ?order
      (Map.empty, empty_world))) = filter (\<lambda>i. i \<notin> set [1]) [0 ..< length two_posts]"
    using language_pass_indices [OF m, of strict_externals english "[]" empty_world]
    unfolding f1 by (rule conjunct1)
  then have 1: "map a_index (fst (language_pass strict_externals {} two_posts ''en'' english []
      ?order (Map.empty, empty_world))) = [0]"
    unfolding n by (simp add: upt_rec)
  have "map a_index (fst (language_pass echo_externals {} two_posts ''en'' english [] ?order
      (Map.empty, empty_world))) = filter (\<lambda>i. i \<notin> set []) [0 ..< length two_posts]"
    using language_pass_indices [OF m, of echo_externals english "[]" empty_world]
    unfolding f0 by (rule conjunct1)
  then have 0: "map a_index (fst (language_pass echo_externals {} two_posts ''en'' english []
      ?order (Map.empty, empty_world))) = [0 ..< length two_posts]"
    by simp
  from m f1 f0 1 0 show ?thesis by simp
qed

text \<open>
  With two records of which the second makes the parser raise, the pass hands on the
  article of index 0 alone.
\<close>

theorem language_pass_failed_worker:
  "mset [(1, \<lparr>p_title = ''B'', p_content = ''bad''\<rparr>), (0, \<lparr>p_title = ''A'', p_content = ''aa''\<rparr>)]
     = mset (submitted_tasks {} two_posts ''en'' Map.empty)
   \<and> map a_index (fst (language_pass strict_externals {} two_posts ''en'' english []
       [(1, \<lparr>p_title = ''B'', p_content = ''bad''\<rparr>), (0, \<lparr>p_title = ''A'', p_content = ''aa''\<rparr>)]
       (Map.empty, empty_world))) \<noteq> [0 ..< length two_posts]"
proof -
  have "map a_index (fst (language_pass strict_externals {} two_posts ''en'' english []
       [(1, \<lparr>p_title = ''B'', p_content = ''bad''\<rparr>), (0, \<lparr>p_title = ''A'', p_content = ''aa''\<rparr>)]
       (Map.empty, empty_world))) = [0]"
    by code_simp
  moreover have "[0 ..< length two_posts] = [0, 1]"
    by (simp add: two_posts_def upt_rec)
  ultimately show ?thesis
    by (simp add: submitted_two_posts)
qed

subsection \<open>The retry loop\<close>

lemma attempt_loop_all_fail:
  assumes "\<And>n. attempt_fails text (tr n source_lang target_lang text)"
  shows "fst (attempt_loop md5 tr text source_lang target_lang use_cache attempts w) = text
     \<and> calls (snd (attempt_loop md5 tr text source_lang target_lang use_cache attempts w))
         \<le> calls w + length attempts
     \<and> cache (snd (attempt_loop md5 tr text source_lang target_lang use_cache attempts w)) = cache w"
proof (induction attempts arbitrary: w)
  case Nil
  then show ?case by simp
next
  case (Cons attempt rest)
  let ?w1 = "w\<lparr>calls := calls w + 1\<rparr>"
  show ?case
  proof (cases "tr (calls w) source_lang target_lang text")
    case (Returned t)
    with assms [of "calls w"] have "t = [] \<or> t = text" by (simp add: attempt_fails_def)
    with Returned Cons.IH [of ?w1] show ?thesis by (auto simp: Let_def)
  next
    case (Raised e)
    show ?thesis
    proof (cases "attempt < MAX_RETRIES - 1")
      case True
      with Raised Cons.IH [of "time_sleep (RETRY_DELAY * (attempt + 1)) ?w1"] show ?thesis
        by (simp add: Let_def time_sleep_def)
    next
      case False
      with Raised show ?thesis by (simp add: Let_def)
    qed
  qed
qed

subsection \<open>Chunks are never empty\<close>

lemma in_set_dropWhile: "x \<in> set xs \<Longrightarrow> \<not> P x \<Longrightarrow> x \<in> set (dropWhile P xs)"
  by (induction xs) auto

lemma py_strip_nonempty: "has_nonspace s \<Longrightarrow> py_strip s \<noteq> []"
proof -
  assume "has_nonspace s"
  then obtain c where c: "c \<in> set s" "\<not> py_isspace c" by (auto simp: has_nonspace_def)
  then have "c \<in> set (rev (dropWhile py_isspace s))" by (simp add: in_set_dropWhile)
  then have "c \<in> set (dropWhile py_isspace (rev (dropWhile py_isspace s)))"
    using c(2) by (rule in_set_dropWhile)
  then have "dropWhile py_isspace (rev (dropWhile py_isspace s)) \<noteq> []" by force
  then show ?thesis by (simp add: py_strip_def)
qed

lemma py_strip_has_nonspace: "py_strip s \<noteq> [] \<Longrightarrow> has_nonspace s"
proof (rule ccontr)
  assume a: "py_strip s \<noteq> []" and "\<not> has_nonspace s"
  then have "\<forall>c \<in> set s. py_isspace c" by (simp add: has_nonspace_def)
  then have "dropWhile py_isspace s = []" by simp
  with a show False by (simp add: py_strip_def)
qed

lemma split_ws_words:
  "\<forall>c \<in> set cur. \<not> py_isspace c \<Longrightarrow> w \<in> set (split_ws cur s) \<Longrightarrow>
   w \<noteq> [] \<and> (\<forall>c \<in> set w. \<not> py_isspace c)"
proof (induction s arbitrary: cur)
  case Nil
  then show ?case by (auto split: if_splits)
next
  case (Cons a s)
  show ?case
  proof (cases "py_isspace a")
    case True
    with Cons.prems have "w = cur \<and> cur \<noteq> [] \<or> w \<in> set (split_ws [] s)"
      by (auto split: if_splits)
    then show ?thesis
    proof
      assume "w = cur \<and> cur \<noteq> []"
      with Cons.prems(1) show ?thesis by simp
    next
      assume "w \<in> set (split_ws [] s)"
      with Cons.IH [of "[]"] show ?thesis by simp
    qed
  next
    case False
    with Cons.prems have "w \<in> set (split_ws (cur @ [a]) s)" by simp
    moreover from False Cons.prems(1) have "\<forall>c \<in> set (cur @ [a]). \<not> py_isspace c" by simp
    ultimately show ?thesis using Cons.IH [of "cur @ [a]"] by blast
  qed
qed

lemma py_split_words: "w \<in> set (py_split s) \<Longrightarrow> has_nonspace w"
proof -
  assume "w \<in> set (py_split s)"
  with split_ws_words [of "[]" w s] have "w \<noteq> []" "\<forall>c \<in> set w. \<not> py_isspace c"
    by (auto simp: py_split_def)
  then show ?thesis by (cases w) (auto simp: has_nonspace_def)
qed











lemma split_ws_nonempty: "cur \<noteq> [] \<or> has_nonspace s \<Longrightarrow> split_ws cur s \<noteq> []"
  by (induction s arbitrary: cur) (auto simp: has_nonspace_def)

lemma py_join_contains: "set w \<subseteq> set (py_join sep (w # ws))"
  by (cases ws) auto

lemma normalize_ws_nonblank:
  assumes "py_strip s \<noteq> []"
  shows "py_strip (normalize_ws s) \<noteq> []"
proof -
  from assms have "has_nonspace s" by (rule py_strip_has_nonspace)
  then have "py_split s \<noteq> []" by (simp add: py_split_def split_ws_nonempty)
  then obtain w ws where ws: "py_split s = w # ws" by (cases "py_split s") auto
  then have "has_nonspace w" using py_split_words [of w s] by simp
  then have "has_nonspace (py_join '' '' (w # ws))"
    using py_join_contains [of w "'' ''" ws] by (auto simp: has_nonspace_def)
  then show ?thesis by (simp add: normalize_ws_def ws py_strip_nonempty)
qed

subsection \<open>The branches of \<open>translate_text\<close>\<close>

lemma translate_text_raw_hit:
  assumes "py_strip text \<noteq> []" and "recursion_depth \<le> MAX_RECURSION_DEPTH"
    and "map_option snd (cache w (get_cache_key md5 text target_lang)) = Some r" and "r \<noteq> []"
  shows "translate_text md5 tr text source_lang target_lang True recursion_depth w
     = (r, w\<lparr>oplog := oplog w @ [Lookup (get_cache_key md5 text target_lang)]\<rparr>)"
proof -
  from assms(1) have ne: "text \<noteq> []" by (auto simp: py_strip_def)
  have t: "truthy (map_option snd (cache w (get_cache_key md5 text target_lang)))"
    unfolding assms(3) using assms(4) by (simp add: truthy_def)
  have v: "the (map_option snd (cache w (get_cache_key md5 text target_lang))) = r"
    unfolding assms(3) by simp
  show ?thesis
    using assms(1,2) ne t v
    by (simp add: translate_text_def load_from_cache_def Let_def)
qed

lemma translate_text_short_miss:
  assumes "py_strip text \<noteq> []" and "recursion_depth \<le> MAX_RECURSION_DEPTH"
    and "\<not> truthy (map_option snd (cache w (get_cache_key md5 text target_lang)))"
    and "length (normalize_ws text) \<le> max_chunk_length"
  shows "translate_text md5 tr text source_lang target_lang True recursion_depth w
     = translate_text_single md5 tr (normalize_ws text) source_lang target_lang True
         (w\<lparr>oplog := oplog w @ [Lookup (get_cache_key md5 text target_lang)]\<rparr>)"
proof -
  from assms(1) have ne: "text \<noteq> []" by (auto simp: py_strip_def)
  with assms show ?thesis
    by (simp add: translate_text_def load_from_cache_def Let_def normalize_ws_def)
qed

lemma translate_text_long_miss:
  assumes "py_strip text \<noteq> []" and "recursion_depth \<le> MAX_RECURSION_DEPTH"
    and "\<not> truthy (map_option snd (cache w (get_cache_key md5 text target_lang)))"
    and "max_chunk_length < length (normalize_ws text)"
    and "translate_chunks md5 tr (chunk_text max_chunk_length (normalize_ws text)) source_lang
           target_lang True
           (w\<lparr>oplog := oplog w @ [Lookup (get_cache_key md5 text target_lang)]\<rparr>) = (ts, w2)"
  shows "translate_text md5 tr text source_lang target_lang True recursion_depth w
     = (py_join '' '' ts, save_to_cache md5 text target_lang (py_join '' '' ts) w2)"
proof -
  from assms(1) have ne: "text \<noteq> []" by (auto simp: py_strip_def)
  with assms show ?thesis
    by (simp add: translate_text_def load_from_cache_def Let_def normalize_ws_def)
qed

subsection \<open>Chunking a text of two sentences\<close>

lemma split_ws_append_nonspace:
  "\<forall>c \<in> set s. \<not> py_isspace c \<Longrightarrow> split_ws cur (s @ rest) = split_ws (cur @ s) rest"
  by (induction s arbitrary: cur) simp_all

lemma split_dot_append_nodot:
  "CHR ''.'' \<notin> set s \<Longrightarrow> split_dot cur (s @ rest) = split_dot (cur @ s) rest"
proof (induction s arbitrary: cur)
  case Nil
  then show ?case by simp
next
  case (Cons c s)
  then have c: "c \<noteq> CHR ''.''" and s: "CHR ''.'' \<notin> set s" by auto
  show ?case
  proof (cases "s @ rest")
    case Nil
    then show ?thesis by simp
  next
    case (Cons d cs)
    with c have "split_dot cur ((c # s) @ rest) = split_dot (cur @ [c]) (s @ rest)" by simp
    with Cons.IH [OF s, of "cur @ [c]"] show ?thesis by simp
  qed
qed

lemma py_isspace_space: "py_isspace CHR '' ''"
  by (simp add: py_isspace_def)

lemma py_isspace_dot: "\<not> py_isspace CHR ''.''"
  by (simp add: py_isspace_def)

lemma py_strip_trailing_space:
  assumes "s \<noteq> []" and "\<forall>c \<in> set s. \<not> py_isspace c"
  shows "py_strip (s @ '' '') = s"
proof -
  from assms obtain a s' where s: "s = a # s'" by (cases s) auto
  with assms(2) have "dropWhile py_isspace (s @ '' '') = s @ '' ''" by simp
  moreover have "dropWhile py_isspace (rev s) = rev s"
    using assms by (cases "rev s") auto
  ultimately show ?thesis by (simp add: py_strip_def py_isspace_space)
qed

lemma two_sentences:
  assumes a: "a \<noteq> []" "\<forall>c \<in> set a. \<not> py_isspace c \<and> c \<noteq> CHR ''.''"
    and b: "b \<noteq> []" "\<forall>c \<in> set b. \<not> py_isspace c \<and> c \<noteq> CHR ''.''"
  shows "normalize_ws (a @ ''. '' @ b) = a @ ''. '' @ b"
    and "py_split_dot (a @ ''. '' @ b) = [a, b]"
proof -
  have ad: "\<forall>c \<in> set (a @ ''.''). \<not> py_isspace c" using a by (simp add: py_isspace_dot)
  have "py_split (a @ ''. '' @ b) = split_ws [] ((a @ ''.'') @ CHR '' '' # b)"
    by (simp add: py_split_def)
  also have "\<dots> = split_ws (a @ ''.'') (CHR '' '' # b)"
    using split_ws_append_nonspace [OF ad, of "[]" "CHR '' '' # b"] by simp
  also have "\<dots> = (a @ ''.'') # split_ws [] (b @ [])"
    by (simp add: py_isspace_space)
  also have "split_ws [] (b @ []) = split_ws b []"
    using split_ws_append_nonspace [of b "[]" "[]"] b by simp
  finally have "py_split (a @ ''. '' @ b) = [a @ ''.'', b]" using b by simp
  then show "normalize_ws (a @ ''. '' @ b) = a @ ''. '' @ b"
    by (simp add: normalize_ws_def)
  have "py_split_dot (a @ ''. '' @ b) = split_dot [] (a @ CHR ''.'' # CHR '' '' # b)"
    by (simp add: py_split_dot_def)
  also have "\<dots> = split_dot a (CHR ''.'' # CHR '' '' # b)"
    using split_dot_append_nodot [of a "[]" "CHR ''.'' # CHR '' '' # b"] a by auto
  also have "\<dots> = a # split_dot [] (b @ [])" by simp
  also have "split_dot [] (b @ []) = split_dot b []"
    using split_dot_append_nodot [of b "[]" "[]"] b by auto
  finally show "py_split_dot (a @ ''. '' @ b) = [a, b]" by simp
qed

lemma two_sentence_chunks:
  assumes a: "a \<noteq> []" "\<forall>c \<in> set a. \<not> py_isspace c \<and> c \<noteq> CHR ''.''"
    and b: "b \<noteq> []" "\<forall>c \<in> set b. \<not> py_isspace c \<and> c \<noteq> CHR ''.''"
    and fit: "length a + 2 \<le> mcl" "length b + 2 \<le> mcl"
    and over: "mcl < length a + length b + 4"
  shows "chunk_text mcl (a @ ''. '' @ b) = [a @ ''.'', b @ ''.'']"
proof -
  have sa: "py_strip (a @ ''. '') = a @ ''.''"
    using py_strip_trailing_space [of "a @ ''.''"] a by (simp add: py_isspace_dot)
  have sb: "py_strip (b @ ''. '') = b @ ''.''"
    using py_strip_trailing_space [of "b @ ''.''"] b by (simp add: py_isspace_dot)
  have 1: "sentence_step mcl ([], []) a = ([], a @ ''. '')"
    using fit by (simp add: sentence_step_def Let_def)
  have 2: "sentence_step mcl ([], a @ ''. '') b = ([a @ ''.''], b @ ''. '')"
    using fit over sa by (simp add: sentence_step_def Let_def close_chunk_def)
  have f: "foldl (sentence_step mcl) ([], []) (py_split_dot (a @ ''. '' @ b))
      = ([a @ ''.''], b @ ''. '')"
    by (simp only: two_sentences(2) [OF a b] foldl.simps 1 2)
  show ?thesis
    unfolding chunk_text_def f using sb by (simp add: close_chunk_def Let_def)
qed

lemma long_text_facts:
  shows "max_chunk_length < length long_text"
    and "normalize_ws long_text = long_text"
    and "chunk_text max_chunk_length long_text
           = [replicate 3000 CHR ''x'' @ ''.'', replicate 3000 CHR ''y'' @ ''.'']"
    and "py_strip long_text \<noteq> []"
proof -
  let ?a = "replicate 3000 CHR ''x''" and ?b = "replicate 3000 CHR ''y''"
  have a: "?a \<noteq> []" "\<forall>c \<in> set ?a. \<not> py_isspace c \<and> c \<noteq> CHR ''.''"
    by (simp_all add: py_isspace_def)
  have b: "?b \<noteq> []" "\<forall>c \<in> set ?b. \<not> py_isspace c \<and> c \<noteq> CHR ''.''"
    by (simp_all add: py_isspace_def)
  show "max_chunk_length < length long_text"
    by (simp add: long_text_def max_chunk_length_def)
  show "normalize_ws long_text = long_text"
    unfolding long_text_def by (rule two_sentences(1) [OF a b])
  show "chunk_text max_chunk_length long_text = [?a @ ''.'', ?b @ ''.'']"
    unfolding long_text_def
    by (rule two_sentence_chunks [OF a b]) (simp_all add: max_chunk_length_def)
  have "has_nonspace long_text"
    by (simp add: has_nonspace_def long_text_def py_isspace_def)
  then show "py_strip long_text \<noteq> []" by (rule py_strip_nonempty)
qed

lemma translate_text_single_unchanged:
  assumes "\<And>n. attempt_fails text (tr n source_lang target_lang text)"
    and "\<not> truthy (map_option snd (cache w (get_cache_key md5 text target_lang)))"
  shows "fst (translate_text_single md5 tr text source_lang target_lang True w) = text
     \<and> cache (snd (translate_text_single md5 tr text source_lang target_lang True w)) = cache w"
proof (cases "text = [] \<or> py_strip text = []")
  case True
  then show ?thesis by (auto simp: translate_text_single_def)
next
  case False
  let ?w1 = "w\<lparr>oplog := oplog w @ [Lookup (get_cache_key md5 text target_lang)]\<rparr>"
  from assms(2) False
  have "translate_text_single md5 tr text source_lang target_lang True w
        = attempt_loop md5 tr text source_lang target_lang True [0 ..< MAX_RETRIES] ?w1"
    by (simp add: translate_text_single_def load_from_cache_def Let_def)
  then show ?thesis
    using attempt_loop_all_fail [of "text" tr source_lang target_lang md5 True
        "[0 ..< MAX_RETRIES]" ?w1] assms(1)
    by simp
qed

lemma translate_chunks_all_fail:
  assumes "\<And>s n. attempt_fails s (tr n source_lang target_lang s)"
  shows "cache w = Map.empty \<Longrightarrow>
     fst (translate_chunks md5 tr chunks source_lang target_lang True w) = chunks
     \<and> cache (snd (translate_chunks md5 tr chunks source_lang target_lang True w)) = Map.empty"
proof (induction chunks arbitrary: w)
  case Nil
  then show ?case by simp
next
  case (Cons chunk rest)
  let ?s = "translate_text_single md5 tr chunk source_lang target_lang True w"
  from Cons.prems have "\<not> truthy (map_option snd (cache w (get_cache_key md5 chunk target_lang)))"
    by (simp add: truthy_def)
  with translate_text_single_unchanged [of chunk tr source_lang target_lang w md5] assms
  have s: "fst ?s = chunk" "cache (snd ?s) = cache w" by simp_all
  with Cons.prems have "cache (time_sleep TRANSLATION_DELAY (snd ?s)) = Map.empty"
    by (simp add: time_sleep_def)
  from Cons.IH [OF this] s show ?case by (simp add: case_prod_beta)
qed

text \<open>
  C1: the text \<open>long_text\<close> is longer than the chunk threshold and already normalized.
  Splitting it and joining the chunks gives the text followed by an extra period, and so
  does \<open>translate_text\<close> when the provider returns every chunk unchanged: the split
  appends the delimiter to the last sentence too.
\<close>

theorem translate_text_long_adds_period:
  "max_chunk_length < length long_text
   \<and> normalize_ws long_text = long_text
   \<and> py_join '' '' (chunk_text max_chunk_length (normalize_ws long_text)) = long_text @ ''.''
   \<and> fst (translate_text md5 (\<lambda>n s t x. Returned x) long_text source_lang target_lang True 0
           empty_world) = long_text @ ''.''"
proof -
  let ?tr = "\<lambda>(n::nat) (s::string) (t::string) (x::string). Returned x"
  let ?chunks = "[replicate 3000 CHR ''x'' @ ''.'', replicate 3000 CHR ''y'' @ ''.'']"
  let ?wL = "empty_world\<lparr>oplog := oplog empty_world @ [Lookup (get_cache_key md5 long_text target_lang)]\<rparr>"
  have j: "py_join '' '' ?chunks = long_text @ ''.''"
    by (simp add: long_text_def)
  have fail: "\<And>s n. attempt_fails s (?tr n source_lang target_lang s)"
    by (simp add: attempt_fails_def)
  have "cache ?wL = Map.empty" by (simp add: empty_world_def)
  from translate_chunks_all_fail [of ?tr source_lang target_lang ?wL md5 ?chunks, OF fail this]
  have c: "translate_chunks md5 ?tr (chunk_text max_chunk_length (normalize_ws long_text))
      source_lang target_lang True ?wL
      = (?chunks, snd (translate_chunks md5 ?tr ?chunks source_lang target_lang True ?wL))"
    by (simp add: long_text_facts prod_eq_iff)
  have miss: "\<not> truthy (map_option snd (cache empty_world (get_cache_key md5 long_text target_lang)))"
    by (simp add: empty_world_def truthy_def)
  have long: "max_chunk_length < length (normalize_ws long_text)"
    by (simp only: long_text_facts)
  have "fst (translate_text md5 ?tr long_text source_lang target_lang True 0 empty_world)
      = py_join '' '' ?chunks"
    using translate_text_long_miss [OF long_text_facts(4) _ miss long c, of 0]
    by (simp add: MAX_RECURSION_DEPTH_def)
  with j show ?thesis by (simp only: long_text_facts)
qed

subsection \<open>Retries\<close>

lemma translate_text_single_all_fail:
  assumes "provider_fails_on tr source_lang target_lang text"
    and "use_cache \<Longrightarrow> uncached md5 w target_lang text"
  shows "fst (translate_text_single md5 tr text source_lang target_lang use_cache w) = text
     \<and> calls (snd (translate_text_single md5 tr text source_lang target_lang use_cache w))
         \<le> calls w + MAX_RETRIES
     \<and> cache (snd (translate_text_single md5 tr text source_lang target_lang use_cache w))
         = cache w"
proof (cases "text = [] \<or> py_strip text = []")
  case True
  then show ?thesis by (auto simp: translate_text_single_def)
next
  case False
  let ?w1 = "if use_cache
             then w\<lparr>oplog := oplog w @ [Lookup (get_cache_key md5 text target_lang)]\<rparr> else w"
  from assms(1) have fails: "\<And>n. attempt_fails text (tr n source_lang target_lang text)"
    by (simp add: provider_fails_on_def)
  from assms(2) False
  have "translate_text_single md5 tr text source_lang target_lang use_cache w
        = attempt_loop md5 tr text source_lang target_lang use_cache [0 ..< MAX_RETRIES] ?w1"
    by (cases use_cache)
       (simp_all add: translate_text_single_def load_from_cache_def Let_def uncached_def truthy_def)
  moreover have "length [0 ..< MAX_RETRIES] = MAX_RETRIES" by simp
  ultimately show ?thesis
    using attempt_loop_all_fail [of "text" tr source_lang target_lang md5 use_cache
        "[0 ..< MAX_RETRIES]" ?w1] fails
    by (cases use_cache) simp_all
qed

lemma translate_chunks_all_fail_bound:
  "\<forall>c \<in> set chunks. provider_fails_on tr source_lang target_lang c
       \<and> (use_cache \<longrightarrow> uncached md5 w target_lang c) \<Longrightarrow>
   fst (translate_chunks md5 tr chunks source_lang target_lang use_cache w) = chunks
   \<and> calls (snd (translate_chunks md5 tr chunks source_lang target_lang use_cache w))
        \<le> calls w + MAX_RETRIES * length chunks
   \<and> cache (snd (translate_chunks md5 tr chunks source_lang target_lang use_cache w)) = cache w"
proof (induction chunks arbitrary: w)
  case Nil
  then show ?case by simp
next
  case (Cons chunk rest)
  let ?s = "translate_text_single md5 tr chunk source_lang target_lang use_cache w"
  let ?w1 = "time_sleep TRANSLATION_DELAY (snd ?s)"
  from Cons.prems have c: "provider_fails_on tr source_lang target_lang chunk"
    "use_cache \<Longrightarrow> uncached md5 w target_lang chunk" by simp_all
  from translate_text_single_all_fail [OF c, of use_cache]
  have s: "fst ?s = chunk" "calls (snd ?s) \<le> calls w + MAX_RETRIES" "cache (snd ?s) = cache w"
    by simp_all
  have same: "cache ?w1 = cache w" "calls ?w1 = calls (snd ?s)"
    using s(3) by (simp_all add: time_sleep_def)
  have "\<And>c. uncached md5 ?w1 target_lang c = uncached md5 w target_lang c"
    unfolding uncached_def same(1) ..
  with Cons.prems
  have "\<forall>c \<in> set rest. provider_fails_on tr source_lang target_lang c
       \<and> (use_cache \<longrightarrow> uncached md5 ?w1 target_lang c)"
    by (cases use_cache) simp_all
  from Cons.IH [OF this] s same show ?case by (simp add: case_prod_beta)
qed

text \<open>
  C6: when every live attempt on what the translator sends (the normalized text, or each
  chunk of a long text) raises or returns an empty or unchanged result, and nothing is
  served from the cache, \<open>translate_text\<close> returns a value: an empty or whitespace-only
  text itself with no live call; for a text within the chunk threshold the
  whitespace-normalized text, after at most \<open>MAX_RETRIES\<close> live calls; for a longer text
  the chunks joined by single spaces, after at most \<open>MAX_RETRIES\<close> live calls per chunk.
  Every raise of the provider is a \<open>Raised\<close> response handled inside the retry loop.
\<close>

theorem translate_text_degrades:
  assumes "recursion_depth \<le> MAX_RECURSION_DEPTH"
    and "list_all (provider_fails_on tr source_lang target_lang) (translation_units text)"
    and "use_cache \<Longrightarrow> uncached md5 w target_lang text"
    and "use_cache \<Longrightarrow> list_all (uncached md5 w target_lang) (translation_units text)"
  shows "\<exists>r w'.
      translate_text md5 tr text source_lang target_lang use_cache recursion_depth w = (r, w')
    \<and> (py_strip text = [] \<longrightarrow> r = text \<and> calls w' = calls w)
    \<and> (py_strip text \<noteq> [] \<and> length (normalize_ws text) \<le> max_chunk_length \<longrightarrow>
         r = normalize_ws text \<and> calls w' \<le> calls w + MAX_RETRIES)
    \<and> (py_strip text \<noteq> [] \<and> max_chunk_length < length (normalize_ws text) \<longrightarrow>
         r = py_join '' '' (chunk_text max_chunk_length (normalize_ws text))
         \<and> calls w' \<le> calls w
              + MAX_RETRIES * length (chunk_text max_chunk_length (normalize_ws text)))"
proof (cases "text = [] \<or> py_strip text = []")
  case True
  then have "translate_text md5 tr text source_lang target_lang use_cache recursion_depth w
      = (text, w)" by (auto simp: translate_text_def)
  moreover from True have "py_strip text = []" by (auto simp: py_strip_def)
  ultimately show ?thesis by simp
next
  case False
  then have ne: "text \<noteq> []" and nb: "py_strip text \<noteq> []" by simp_all
  let ?clean = "normalize_ws text"
  let ?wL = "if use_cache
             then w\<lparr>oplog := oplog w @ [Lookup (get_cache_key md5 text target_lang)]\<rparr> else w"
  have cL: "cache ?wL = cache w" "calls ?wL = calls w" by simp_all
  have miss: "use_cache \<Longrightarrow>
      \<not> truthy (map_option snd (cache w (get_cache_key md5 text target_lang)))"
    using assms(3) by (simp add: uncached_def)
  show ?thesis
  proof (cases "length ?clean \<le> max_chunk_length")
    case True
    with nb have units: "translation_units text = [?clean]" by (simp add: translation_units_def)
    have t: "translate_text md5 tr text source_lang target_lang use_cache recursion_depth w
        = translate_text_single md5 tr ?clean source_lang target_lang use_cache ?wL"
      using assms(1) ne nb miss True
      by (cases use_cache)
         (simp_all add: translate_text_def load_from_cache_def Let_def normalize_ws_def truthy_def)
    from assms(2) units have f: "provider_fails_on tr source_lang target_lang ?clean" by simp
    have u: "use_cache \<Longrightarrow> uncached md5 ?wL target_lang ?clean"
      using assms(4) units by (simp add: uncached_def)
    from translate_text_single_all_fail [OF f u, of use_cache] cL
    have "fst (translate_text_single md5 tr ?clean source_lang target_lang use_cache ?wL) = ?clean"
      "calls (snd (translate_text_single md5 tr ?clean source_lang target_lang use_cache ?wL))
        \<le> calls w + MAX_RETRIES"
      by simp_all
    with t True nb show ?thesis
      by (intro exI [of _ ?clean]
          exI [of _ "snd (translate_text_single md5 tr ?clean source_lang target_lang use_cache ?wL)"])
         (simp add: prod_eq_iff)
  next
    case False
    then have long: "max_chunk_length < length ?clean" by simp
    let ?chunks = "chunk_text max_chunk_length ?clean"
    let ?c = "translate_chunks md5 tr ?chunks source_lang target_lang use_cache ?wL"
    let ?w3 = "if use_cache then save_to_cache md5 text target_lang (py_join '' '' (fst ?c)) (snd ?c)
               else snd ?c"
    from long nb have units: "translation_units text = ?chunks"
      by (simp add: translation_units_def)
    have t: "translate_text md5 tr text source_lang target_lang use_cache recursion_depth w
        = (py_join '' '' (fst ?c), ?w3)"
      using assms(1) ne nb miss long
      by (cases use_cache)
         (simp_all add: translate_text_def load_from_cache_def Let_def normalize_ws_def truthy_def
            case_prod_beta)
    have "\<forall>c \<in> set ?chunks. provider_fails_on tr source_lang target_lang c
        \<and> (use_cache \<longrightarrow> uncached md5 ?wL target_lang c)"
      using assms(2,4) units by (auto simp: list_all_iff uncached_def)
    from translate_chunks_all_fail_bound [OF this] cL
    have c: "fst ?c = ?chunks" "calls (snd ?c) \<le> calls w + MAX_RETRIES * length ?chunks"
      by simp_all
    have "calls ?w3 = calls (snd ?c)" by (simp add: save_to_cache_def Let_def)
    with t c long nb show ?thesis
      by (intro exI [of _ "py_join '' '' ?chunks"] exI [of _ ?w3]) simp
  qed
qed


lemma raising_provider_fails:
  "provider_fails_on (\<lambda>n s t x. Raised ''timeout'') source_lang target_lang s"
  by (simp add: provider_fails_on_def attempt_fails_def)

lemma identity_provider_fails:
  "provider_fails_on (\<lambda>n s t x. Returned x) source_lang target_lang s"
  by (simp add: provider_fails_on_def attempt_fails_def)

lemma uncached_empty_world: "uncached md5 empty_world target_lang s"
  by (simp add: uncached_def empty_world_def truthy_def)

lemma normalize_a_b: "normalize_ws ''a  b'' = ''a b''"
  by (simp add: normalize_ws_def py_split_def py_isspace_def)

lemma py_strip_a_b: "py_strip ''a  b'' \<noteq> []"
  by (simp add: py_strip_def py_isspace_def)

theorem translate_text_degrades_witness:
  "fst (translate_text (\<lambda>s. s) (\<lambda>n s t x. Raised ''timeout'') ''a  b'' ''uz'' ''en'' True 0
          empty_world) = normalize_ws ''a  b''
   \<and> calls (snd (translate_text (\<lambda>s. s) (\<lambda>n s t x. Raised ''timeout'') ''a  b'' ''uz'' ''en''
                   True 0 empty_world))
       \<le> calls empty_world + MAX_RETRIES
   \<and> fst (translate_text (\<lambda>s. s) (\<lambda>n s t x. Returned x) long_text ''uz'' ''en'' True 0
          empty_world) = py_join '' '' (chunk_text max_chunk_length (normalize_ws long_text))
   \<and> calls (snd (translate_text (\<lambda>s. s) (\<lambda>n s t x. Returned x) long_text ''uz'' ''en'' True 0
                   empty_world))
       \<le> calls empty_world
           + MAX_RETRIES * length (chunk_text max_chunk_length (normalize_ws long_text))"
proof -
  have d: "(0::nat) \<le> MAX_RECURSION_DEPTH" by simp
  have short: "length (normalize_ws ''a  b'') \<le> max_chunk_length"
    by (simp add: normalize_a_b max_chunk_length_def)
  have long: "max_chunk_length < length (normalize_ws long_text)"
    by (simp only: long_text_facts)
  have f1: "list_all (provider_fails_on (\<lambda>n s t x. Raised ''timeout'') ''uz'' ''en'')
      (translation_units ''a  b'')"
    by (simp add: list_all_iff raising_provider_fails)
  have f2: "list_all (provider_fails_on (\<lambda>n s t x. Returned x) ''uz'' ''en'')
      (translation_units long_text)"
    by (simp add: list_all_iff identity_provider_fails)
  have u: "\<And>t. list_all (uncached (\<lambda>s. s) empty_world ''en'') (translation_units t)"
    by (simp add: list_all_iff uncached_empty_world)
  from translate_text_degrades [OF d f1 uncached_empty_world u, of True] py_strip_a_b short
  have 1: "fst (translate_text (\<lambda>s. s) (\<lambda>n s t x. Raised ''timeout'') ''a  b'' ''uz'' ''en'' True 0
          empty_world) = normalize_ws ''a  b''"
    "calls (snd (translate_text (\<lambda>s. s) (\<lambda>n s t x. Raised ''timeout'') ''a  b'' ''uz'' ''en''
                   True 0 empty_world)) \<le> calls empty_world + MAX_RETRIES"
    by auto
  from translate_text_degrades [OF d f2 uncached_empty_world u, of True] long_text_facts(4) long
  have 2: "fst (translate_text (\<lambda>s. s) (\<lambda>n s t x. Returned x) long_text ''uz'' ''en'' True 0
          empty_world) = py_join '' '' (chunk_text max_chunk_length (normalize_ws long_text))"
    "calls (snd (translate_text (\<lambda>s. s) (\<lambda>n s t x. Returned x) long_text ''uz'' ''en'' True 0
                   empty_world))
       \<le> calls empty_world
           + MAX_RETRIES * length (chunk_text max_chunk_length (normalize_ws long_text))"
    by auto
  from 1 2 show ?thesis by simp
qed

lemma attempt_loop_calls_exact:
  assumes "\<And>n. attempt_fails text (tr n source_lang target_lang text)"
  shows "\<forall>i. Suc i < length attempts \<longrightarrow> attempts ! i < MAX_RETRIES - 1 \<Longrightarrow>
     calls (snd (attempt_loop md5 tr text source_lang target_lang use_cache attempts w))
       = calls w + length attempts"
proof (induction attempts arbitrary: w)
  case Nil
  then show ?case by simp
next
  case (Cons attempt rest)
  let ?w1 = "w\<lparr>calls := calls w + 1\<rparr>"
  have rest: "\<forall>i. Suc i < length rest \<longrightarrow> rest ! i < MAX_RETRIES - 1"
  proof (intro allI impI)
    fix i assume "Suc i < length rest"
    with Cons.prems [rule_format, of "Suc i"] show "rest ! i < MAX_RETRIES - 1" by simp
  qed
  show ?case
  proof (cases "tr (calls w) source_lang target_lang text")
    case (Returned t)
    with assms [of "calls w"] have "t = [] \<or> t = text" by (simp add: attempt_fails_def)
    with Returned Cons.IH [OF rest, of ?w1] show ?thesis by (auto simp: Let_def)
  next
    case (Raised e)
    show ?thesis
    proof (cases rest)
      case Nil
      with Raised show ?thesis by (simp add: Let_def time_sleep_def)
    next
      case (Cons a list)
      with Cons.prems [rule_format, of 0] have "attempt < MAX_RETRIES - 1" by simp
      with Raised Cons.IH [OF rest, of "time_sleep (RETRY_DELAY * (attempt + 1)) ?w1"]
      show ?thesis by (simp add: Let_def time_sleep_def)
    qed
  qed
qed

lemma translate_text_single_calls_exact:
  assumes "provider_fails_on tr source_lang target_lang text"
    and "py_strip text \<noteq> []"
    and "uncached md5 w target_lang text"
  shows "calls (snd (translate_text_single md5 tr text source_lang target_lang True w))
     = calls w + MAX_RETRIES"
proof -
  let ?w1 = "w\<lparr>oplog := oplog w @ [Lookup (get_cache_key md5 text target_lang)]\<rparr>"
  from assms(2) have ne: "text \<noteq> []" by (auto simp: py_strip_def)
  from assms(1) have fails: "\<And>n. attempt_fails text (tr n source_lang target_lang text)"
    by (simp add: provider_fails_on_def)
  have idx: "\<forall>i. Suc i < length [0 ..< MAX_RETRIES] \<longrightarrow> [0 ..< MAX_RETRIES] ! i < MAX_RETRIES - 1"
    by auto
  from assms(2,3) ne
  have "translate_text_single md5 tr text source_lang target_lang True w
        = attempt_loop md5 tr text source_lang target_lang True [0 ..< MAX_RETRIES] ?w1"
    by (simp add: translate_text_single_def load_from_cache_def Let_def uncached_def)
  with attempt_loop_calls_exact [of "text" tr source_lang target_lang "[0 ..< MAX_RETRIES]" md5
      True ?w1, OF fails idx]
  show ?thesis by simp
qed

text \<open>
  For the input \<open>a  b\<close> (two spaces) and a provider that always raises, the result is
  \<open>a b\<close>, not the input; for \<open>long_text\<close>, which has two chunks, the translator makes
  \<open>2 * MAX_RETRIES\<close> live calls.
\<close>

theorem translate_text_degrades_to_normalized:
  "provider_fails_on (\<lambda>n s t x. Raised ''timeout'') ''uz'' ''en'' ''a  b''
   \<and> fst (translate_text (\<lambda>s. s) (\<lambda>n s t x. Raised ''timeout'') ''a  b'' ''uz'' ''en'' True 0
          empty_world) \<noteq> ''a  b''
   \<and> calls (snd (translate_text (\<lambda>s. s) (\<lambda>n s t x. Raised ''timeout'') long_text ''uz'' ''en''
                   True 0 empty_world))
       = calls empty_world + 2 * MAX_RETRIES"
proof -
  let ?tr = "\<lambda>(n::nat) (s::string) (t::string) (x::string). Raised ''timeout''"
  let ?a = "replicate 3000 CHR ''x'' @ ''.''" and ?b = "replicate 3000 CHR ''y'' @ ''.''"
  let ?wL = "empty_world\<lparr>oplog := oplog empty_world
      @ [Lookup (get_cache_key (\<lambda>s. s) long_text ''en'')]\<rparr>"
  have "fst (translate_text (\<lambda>s. s) ?tr ''a  b'' ''uz'' ''en'' True 0 empty_world) = ''a b''"
    by code_simp
  then have 1: "fst (translate_text (\<lambda>s. s) ?tr ''a  b'' ''uz'' ''en'' True 0 empty_world)
      \<noteq> ''a  b''" by simp
  have d: "(0::nat) \<le> MAX_RECURSION_DEPTH" by simp
  have miss: "\<not> truthy (map_option snd (cache empty_world (get_cache_key (\<lambda>s. s) long_text ''en'')))"
    by (simp add: empty_world_def truthy_def)
  have long: "max_chunk_length < length (normalize_ws long_text)"
    by (simp only: long_text_facts)
  have a: "py_strip ?a \<noteq> []" and b: "py_strip ?b \<noteq> []"
    by (rule py_strip_nonempty, simp add: has_nonspace_def py_isspace_def)+
  have uL: "\<And>s. uncached (\<lambda>s. s) ?wL ''en'' s"
    by (simp add: uncached_def empty_world_def truthy_def)
  let ?sa = "translate_text_single (\<lambda>s. s) ?tr ?a ''uz'' ''en'' True ?wL"
  let ?wa = "time_sleep TRANSLATION_DELAY (snd ?sa)"
  have ca: "calls (snd ?sa) = calls ?wL + MAX_RETRIES"
    by (rule translate_text_single_calls_exact [OF raising_provider_fails a uL])
  have "cache (snd ?sa) = cache ?wL"
    using translate_text_single_all_fail
      [OF raising_provider_fails [of "''uz''" "''en''" ?a] uL, of True]
    by simp
  then have ua: "uncached (\<lambda>s. s) ?wa ''en'' ?b"
    by (simp add: uncached_def time_sleep_def empty_world_def truthy_def)
  have cb: "calls (snd (translate_text_single (\<lambda>s. s) ?tr ?b ''uz'' ''en'' True ?wa))
      = calls ?wa + MAX_RETRIES"
    by (rule translate_text_single_calls_exact [OF raising_provider_fails b ua])
  have two: "calls (snd (translate_chunks (\<lambda>s. s) ?tr [?a, ?b] ''uz'' ''en'' True ?wL))
      = calls empty_world + 2 * MAX_RETRIES"
    using ca cb by (simp add: case_prod_beta time_sleep_def)
  let ?c = "translate_chunks (\<lambda>s. s) ?tr (chunk_text max_chunk_length (normalize_ws long_text))
      ''uz'' ''en'' True ?wL"
  have c: "?c = (fst ?c, snd ?c)" by simp
  from translate_text_long_miss [OF long_text_facts(4) d miss long c]
  have "calls (snd (translate_text (\<lambda>s. s) ?tr long_text ''uz'' ''en'' True 0 empty_world))
      = calls (snd ?c)"
    by (simp add: save_to_cache_def Let_def)
  also have "\<dots> = calls empty_world + 2 * MAX_RETRIES"
    using two by (simp only: long_text_facts)
  finally show ?thesis using 1 raising_provider_fails by simp
qed

subsection \<open>The translator on a provider that succeeds\<close>

lemma translate_text_single_hit:
  assumes "py_strip text \<noteq> []"
    and "map_option snd (cache w (get_cache_key md5 text target_lang)) = Some r" and "r \<noteq> []"
  shows "translate_text_single md5 tr text source_lang target_lang True w
     = (r, w\<lparr>oplog := oplog w @ [Lookup (get_cache_key md5 text target_lang)]\<rparr>)"
proof -
  from assms(1) have ne: "text \<noteq> []" by (auto simp: py_strip_def)
  have t: "truthy (map_option snd (cache w (get_cache_key md5 text target_lang)))"
    unfolding assms(2) using assms(3) by (simp add: truthy_def)
  have v: "the (map_option snd (cache w (get_cache_key md5 text target_lang))) = r"
    unfolding assms(2) by simp
  show ?thesis
    using assms(1) ne t v
    by (simp add: translate_text_single_def load_from_cache_def Let_def)
qed




lemma translate_text_single_miss:
  assumes "provider_succeeds_on tr source_lang target_lang text"
    and "py_strip text \<noteq> []"
    and "uncached md5 w target_lang text"
    and "write_ok w (Suc (length (oplog w)))"
  shows "\<exists>r w'. translate_text_single md5 tr text source_lang target_lang True w = (r, w')
     \<and> r \<noteq> [] \<and> calls w' = calls w + 1
     \<and> cache w' = (cache w)(get_cache_key md5 text target_lang \<mapsto> (take 100 text, r))
     \<and> oplog w' = oplog w @ [Lookup (get_cache_key md5 text target_lang),
                              Store (get_cache_key md5 text target_lang)]"
proof -
  let ?k = "get_cache_key md5 text target_lang"
  let ?w1 = "w\<lparr>oplog := oplog w @ [Lookup ?k]\<rparr>"
  from assms(2) have ne: "text \<noteq> []" by (auto simp: py_strip_def)
  from assms(1) obtain t where t: "tr (calls w) source_lang target_lang text = Returned t"
    "t \<noteq> []" "t \<noteq> text" by (auto simp: provider_succeeds_on_def)
  have "[0 ..< MAX_RETRIES] = 0 # [1 ..< MAX_RETRIES]"
    by (simp add: MAX_RETRIES_def upt_rec)
  then have "attempt_loop md5 tr text source_lang target_lang True [0 ..< MAX_RETRIES] ?w1
      = (t, time_sleep TRANSLATION_DELAY
              (save_to_cache md5 text target_lang t (?w1\<lparr>calls := calls ?w1 + 1\<rparr>)))"
    using t by (simp add: Let_def)
  with assms(2,3) ne have "translate_text_single md5 tr text source_lang target_lang True w
      = (t, time_sleep TRANSLATION_DELAY
              (save_to_cache md5 text target_lang t (?w1\<lparr>calls := calls ?w1 + 1\<rparr>)))"
    by (simp add: translate_text_single_def load_from_cache_def Let_def uncached_def)
  with t(2) assms(4) show ?thesis
    by (simp add: time_sleep_def save_to_cache_def Let_def)
qed

lemma translate_text_single_cached_after:
  assumes "provider_succeeds_on tr source_lang target_lang text"
    and "py_strip text \<noteq> []"
    and "\<And>n. write_ok w n"
    and "translate_text_single md5 tr text source_lang target_lang True w = (r, w')"
  shows "r \<noteq> [] \<and> map_option snd (cache w' (get_cache_key md5 text target_lang)) = Some r
     \<and> calls w' \<le> calls w + 1
     \<and> (\<forall>k. k \<noteq> get_cache_key md5 text target_lang \<longrightarrow> cache w' k = cache w k)"
proof (cases "uncached md5 w target_lang text")
  case False
  then obtain c where c: "map_option snd (cache w (get_cache_key md5 text target_lang)) = Some c"
    "c \<noteq> []" by (auto simp: uncached_def truthy_def split: option.splits)
  from translate_text_single_hit [OF assms(2) c, of tr source_lang] assms(4) c
  show ?thesis by auto
next
  case True
  from translate_text_single_miss [OF assms(1,2) True assms(3)] assms(4)
  show ?thesis by auto
qed



subsection \<open>Keys of the cache accesses\<close>

lemma attempt_loop_oplog:
  "\<exists>ops. oplog (snd (attempt_loop md5 tr text source_lang target_lang use_cache attempts w))
           = oplog w @ ops
         \<and> set ops \<subseteq> {Store (get_cache_key md5 text target_lang)}"
proof (induction attempts arbitrary: w)
  case Nil
  then show ?case by simp
next
  case (Cons attempt rest)
  let ?w1 = "w\<lparr>calls := calls w + 1\<rparr>"
  show ?case
  proof (cases "tr (calls w) source_lang target_lang text")
    case (Returned t)
    show ?thesis
    proof (cases "t \<noteq> [] \<and> t \<noteq> text")
      case True
      with Returned show ?thesis
        by (cases use_cache) (simp_all add: Let_def time_sleep_def save_to_cache_def)
    next
      case False
      with Returned Cons.IH [of ?w1] show ?thesis by (auto simp: Let_def)
    qed
  next
    case (Raised e)
    show ?thesis
    proof (cases "attempt < MAX_RETRIES - 1")
      case True
      with Raised Cons.IH [of "time_sleep (RETRY_DELAY * (attempt + 1)) ?w1"] show ?thesis
        by (simp add: Let_def time_sleep_def)
    next
      case False
      with Raised show ?thesis by (simp add: Let_def)
    qed
  qed
qed

lemma translate_text_single_oplog:
  "\<exists>ops. oplog (snd (translate_text_single md5 tr text source_lang target_lang use_cache w))
           = oplog w @ ops
         \<and> op_key ` set ops \<subseteq> {get_cache_key md5 text target_lang}"
proof -
  let ?k = "get_cache_key md5 text target_lang"
  have loop: "\<exists>ops. oplog (snd (attempt_loop md5 tr text source_lang target_lang use_cache
                 [0 ..< MAX_RETRIES] w0)) = oplog w @ ops \<and> op_key ` set ops \<subseteq> {?k}"
    if "oplog w0 = oplog w @ pre" "op_key ` set pre \<subseteq> {?k}" for w0 pre
  proof -
    from attempt_loop_oplog [of md5 tr "text" source_lang target_lang use_cache
        "[0 ..< MAX_RETRIES]" w0]
    obtain ops where "oplog (snd (attempt_loop md5 tr text source_lang target_lang use_cache
                 [0 ..< MAX_RETRIES] w0)) = oplog w0 @ ops" "set ops \<subseteq> {Store ?k}" by blast
    with that show ?thesis
      by (intro exI [of _ "pre @ ops"]) (auto simp: op_key_def)
  qed
  show ?thesis
  proof (cases "text = [] \<or> py_strip text = []")
    case True
    then show ?thesis by (auto simp: translate_text_single_def)
  next
    case False
    show ?thesis
    proof (cases use_cache)
      case True
      let ?w1 = "w\<lparr>oplog := oplog w @ [Lookup ?k]\<rparr>"
      show ?thesis
      proof (cases "truthy (map_option snd (cache w ?k))")
        case hit: True
        with True False show ?thesis
          by (simp add: translate_text_single_def load_from_cache_def Let_def op_key_def)
      next
        case miss: False
        with True False have "translate_text_single md5 tr text source_lang target_lang use_cache w
            = attempt_loop md5 tr text source_lang target_lang use_cache [0 ..< MAX_RETRIES] ?w1"
          by (simp add: translate_text_single_def load_from_cache_def Let_def)
        with loop [of ?w1 "[Lookup ?k]"] show ?thesis by (simp add: op_key_def)
      qed
    next
      case no_cache: False
      with False have "translate_text_single md5 tr text source_lang target_lang use_cache w
            = attempt_loop md5 tr text source_lang target_lang use_cache [0 ..< MAX_RETRIES] w"
        by (simp add: translate_text_single_def truthy_def)
      with loop [of w "[]"] show ?thesis by simp
    qed
  qed
qed

lemma translate_chunks_oplog:
  "\<exists>ops. oplog (snd (translate_chunks md5 tr chunks source_lang target_lang use_cache w))
           = oplog w @ ops"
proof (induction chunks arbitrary: w)
  case Nil
  then show ?case by simp
next
  case (Cons chunk rest)
  obtain r w1 where s: "translate_text_single md5 tr chunk source_lang target_lang use_cache w
      = (r, w1)" by (cases "translate_text_single md5 tr chunk source_lang target_lang use_cache w")
  from translate_text_single_oplog [of md5 tr chunk source_lang target_lang use_cache w] s
  obtain ops1 where o1: "oplog w1 = oplog w @ ops1" by auto
  from Cons.IH [of "time_sleep TRANSLATION_DELAY w1"]
  obtain ops2 where "oplog (snd (translate_chunks md5 tr rest source_lang target_lang use_cache
      (time_sleep TRANSLATION_DELAY w1))) = oplog w1 @ ops2"
    by (auto simp: time_sleep_def)
  with s o1 show ?case
    by (intro exI [of _ "ops1 @ ops2"]) (simp add: case_prod_beta)
qed

subsection \<open>Keys used by \<open>translate_text\<close>\<close>

lemma translate_text_single_oplog_nonblank:
  assumes "py_strip text \<noteq> []"
  shows "\<exists>stores. oplog (snd (translate_text_single md5 tr text source_lang target_lang True w))
           = oplog w @ Lookup (get_cache_key md5 text target_lang) # stores
         \<and> set stores \<subseteq> {Store (get_cache_key md5 text target_lang)}"
proof -
  let ?k = "get_cache_key md5 text target_lang"
  let ?w1 = "w\<lparr>oplog := oplog w @ [Lookup ?k]\<rparr>"
  from assms have ne: "text \<noteq> []" by (auto simp: py_strip_def)
  show ?thesis
  proof (cases "truthy (map_option snd (cache w ?k))")
    case True
    with assms ne show ?thesis
      by (simp add: translate_text_single_def load_from_cache_def Let_def)
  next
    case False
    with assms ne have "translate_text_single md5 tr text source_lang target_lang True w
        = attempt_loop md5 tr text source_lang target_lang True [0 ..< MAX_RETRIES] ?w1"
      by (simp add: translate_text_single_def load_from_cache_def Let_def)
    moreover from attempt_loop_oplog [of md5 tr "text" source_lang target_lang True
        "[0 ..< MAX_RETRIES]" ?w1]
    obtain ops where "oplog (snd (attempt_loop md5 tr text source_lang target_lang True
        [0 ..< MAX_RETRIES] ?w1)) = oplog ?w1 @ ops" "set ops \<subseteq> {Store ?k}" by blast
    ultimately show ?thesis by (intro exI [of _ ops]) simp
  qed
qed

lemma translate_text_single_miss_oplog:
  assumes "provider_succeeds_on tr source_lang target_lang text"
    and "py_strip text \<noteq> []"
    and "uncached md5 w target_lang text"
  shows "oplog (snd (translate_text_single md5 tr text source_lang target_lang True w))
     = oplog w @ [Lookup (get_cache_key md5 text target_lang),
                  Store (get_cache_key md5 text target_lang)]"
proof -
  let ?k = "get_cache_key md5 text target_lang"
  let ?w1 = "w\<lparr>oplog := oplog w @ [Lookup ?k]\<rparr>"
  from assms(2) have ne: "text \<noteq> []" by (auto simp: py_strip_def)
  from assms(1) obtain t where t: "tr (calls w) source_lang target_lang text = Returned t"
    "t \<noteq> []" "t \<noteq> text" by (auto simp: provider_succeeds_on_def)
  have "[0 ..< MAX_RETRIES] = 0 # [1 ..< MAX_RETRIES]"
    by (simp add: MAX_RETRIES_def upt_rec)
  then have "attempt_loop md5 tr text source_lang target_lang True [0 ..< MAX_RETRIES] ?w1
      = (t, time_sleep TRANSLATION_DELAY
              (save_to_cache md5 text target_lang t (?w1\<lparr>calls := calls ?w1 + 1\<rparr>)))"
    using t by (simp add: Let_def)
  with assms(2,3) ne have "translate_text_single md5 tr text source_lang target_lang True w
      = (t, time_sleep TRANSLATION_DELAY
              (save_to_cache md5 text target_lang t (?w1\<lparr>calls := calls ?w1 + 1\<rparr>)))"
    by (simp add: translate_text_single_def load_from_cache_def Let_def uncached_def)
  then show ?thesis
    by (simp add: time_sleep_def save_to_cache_def Let_def)
qed

lemma blank_normalize_ws:
  assumes "py_strip s = []"
  shows "normalize_ws s = []"
proof -
  from assms have "\<not> has_nonspace s" using py_strip_nonempty by blast
  then have all: "\<forall>c \<in> set s. py_isspace c" by (simp add: has_nonspace_def)
  have "\<forall>c \<in> set t. py_isspace c \<Longrightarrow> split_ws [] t = []" for t
    by (induction t) simp_all
  with all show ?thesis by (simp add: normalize_ws_def py_split_def)
qed

lemma translate_text_shared_entry:
  assumes depth: "recursion_depth \<le> MAX_RECURSION_DEPTH"
    and first: "translate_text md5 tr text source_lang target_lang True recursion_depth w = (r1, w1)"
    and second: "translate_text md5 tr text2 source_lang target_lang True recursion_depth w1
                   = (r2, w2)"
    and nb: "py_strip text \<noteq> []"
    and short: "length (normalize_ws text) \<le> max_chunk_length"
    and same: "normalize_ws text2 = normalize_ws text"
    and ok: "provider_succeeds_on tr source_lang target_lang (normalize_ws text)"
    and writes: "\<And>n. write_ok w n"
    and u1: "uncached md5 w target_lang text"
    and u2: "uncached md5 w target_lang text2"
  shows "r2 = r1 \<and> calls w2 = calls w1
     \<and> map_option snd (cache w1 (get_cache_key md5 (normalize_ws text) target_lang)) = Some r1
     \<and> last (oplog w2) = Lookup (get_cache_key md5 (normalize_ws text) target_lang)"
proof -
  let ?clean = "normalize_ws text"
  let ?kclean = "get_cache_key md5 ?clean target_lang"
  let ?kraw = "get_cache_key md5 text target_lang"
  let ?kraw2 = "get_cache_key md5 text2 target_lang"
  let ?wL = "w\<lparr>oplog := oplog w @ [Lookup ?kraw]\<rparr>"
  have cnb: "py_strip ?clean \<noteq> []" using nb by (rule normalize_ws_nonblank)
  then have "normalize_ws text2 \<noteq> []" using same by (auto simp: py_strip_def)
  then have nb2: "py_strip text2 \<noteq> []" using blank_normalize_ws [of text2] by blast
  from u1 have miss: "\<not> truthy (map_option snd (cache w ?kraw))" by (simp add: uncached_def)
  have wL: "\<And>n. write_ok ?wL n" using writes by simp
  from translate_text_short_miss [OF nb depth miss short, of tr source_lang] first
  have s1: "translate_text_single md5 tr ?clean source_lang target_lang True ?wL = (r1, w1)"
    by simp
  from translate_text_single_cached_after [OF ok cnb wL s1]
  have r1: "r1 \<noteq> []" and k1: "map_option snd (cache w1 ?kclean) = Some r1"
    and other: "\<And>k. k \<noteq> ?kclean \<Longrightarrow> cache w1 k = cache w k"
    by simp_all
  have "r2 = r1 \<and> calls w2 = calls w1 \<and> last (oplog w2) = Lookup ?kclean"
  proof (cases "?kraw2 = ?kclean")
    case True
    with k1 have "map_option snd (cache w1 ?kraw2) = Some r1" by simp
    from translate_text_raw_hit [OF nb2 depth this r1, of tr source_lang] second True
    show ?thesis by auto
  next
    case False
    with other [of ?kraw2] u2
    have m2: "\<not> truthy (map_option snd (cache w1 ?kraw2))" by (simp add: uncached_def)
    let ?w1L = "w1\<lparr>oplog := oplog w1 @ [Lookup ?kraw2]\<rparr>"
    from short same have short2: "length (normalize_ws text2) \<le> max_chunk_length" by simp
    from translate_text_short_miss [OF nb2 depth m2 short2, of tr source_lang] second same
    have "translate_text_single md5 tr ?clean source_lang target_lang True ?w1L = (r2, w2)"
      by simp
    moreover from k1 have "map_option snd (cache ?w1L ?kclean) = Some r1" by simp
    from translate_text_single_hit [OF cnb this r1, of tr source_lang]
    have "translate_text_single md5 tr ?clean source_lang target_lang True ?w1L
        = (r1, ?w1L\<lparr>oplog := oplog ?w1L @ [Lookup ?kclean]\<rparr>)" .
    ultimately show ?thesis by auto
  qed
  with k1 show ?thesis by simp
qed

lemma translate_text_key_log:
  assumes depth: "recursion_depth \<le> MAX_RECURSION_DEPTH"
    and nb: "py_strip text \<noteq> []"
  shows "\<exists>ops.
      oplog (snd (translate_text md5 tr text source_lang target_lang True recursion_depth w))
        = oplog w @ Lookup (get_cache_key md5 text target_lang) # ops
    \<and> (uncached md5 w target_lang text \<and> length (normalize_ws text) \<le> max_chunk_length \<longrightarrow>
         (\<exists>stores. ops = Lookup (get_cache_key md5 (normalize_ws text) target_lang) # stores
            \<and> set stores \<subseteq> {Store (get_cache_key md5 (normalize_ws text) target_lang)}))
    \<and> (uncached md5 w target_lang text \<and> length (normalize_ws text) \<le> max_chunk_length
         \<and> uncached md5 w target_lang (normalize_ws text)
         \<and> provider_succeeds_on tr source_lang target_lang (normalize_ws text) \<longrightarrow>
         ops = [Lookup (get_cache_key md5 (normalize_ws text) target_lang),
                Store (get_cache_key md5 (normalize_ws text) target_lang)])
    \<and> (uncached md5 w target_lang text \<and> max_chunk_length < length (normalize_ws text) \<longrightarrow>
         ops \<noteq> [] \<and> last ops = Store (get_cache_key md5 text target_lang))"
proof -
  let ?k = "get_cache_key md5 text target_lang"
  let ?clean = "normalize_ws text"
  let ?kclean = "get_cache_key md5 ?clean target_lang"
  let ?w1 = "w\<lparr>oplog := oplog w @ [Lookup ?k]\<rparr>"
  from nb have ne: "text \<noteq> []" by (auto simp: py_strip_def)
  show ?thesis
  proof (cases "truthy (map_option snd (cache w ?k))")
    case True
    with depth nb ne have "oplog (snd (translate_text md5 tr text source_lang target_lang True
        recursion_depth w)) = oplog w @ Lookup ?k # []"
      by (simp add: translate_text_def load_from_cache_def Let_def)
    with True show ?thesis by (intro exI [of _ "[]"]) (simp add: uncached_def)
  next
    case miss: False
    show ?thesis
    proof (cases "length ?clean \<le> max_chunk_length")
      case True
      have cnb: "py_strip ?clean \<noteq> []" using nb by (rule normalize_ws_nonblank)
      from translate_text_short_miss [OF nb depth miss True, of tr source_lang]
      have t: "translate_text md5 tr text source_lang target_lang True recursion_depth w
          = translate_text_single md5 tr ?clean source_lang target_lang True ?w1" .
      from translate_text_single_oplog_nonblank [OF cnb, of md5 tr source_lang target_lang ?w1]
      obtain stores where st: "oplog (snd (translate_text_single md5 tr ?clean source_lang
          target_lang True ?w1)) = oplog ?w1 @ Lookup ?kclean # stores"
        "set stores \<subseteq> {Store ?kclean}" by blast
      have exact: "stores = [Store ?kclean]"
        if "uncached md5 w target_lang ?clean"
          "provider_succeeds_on tr source_lang target_lang ?clean"
      proof -
        from that(1) have "uncached md5 ?w1 target_lang ?clean" by (simp add: uncached_def)
        from translate_text_single_miss_oplog [OF that(2) cnb this] st(1)
        show ?thesis by simp
      qed
      from t st exact True show ?thesis
        by (intro exI [of _ "Lookup ?kclean # stores"]) auto
    next
      case False
      let ?chunks = "chunk_text max_chunk_length ?clean"
      obtain ts w2 where c: "translate_chunks md5 tr ?chunks source_lang target_lang True ?w1
          = (ts, w2)"
        by (cases "translate_chunks md5 tr ?chunks source_lang target_lang True ?w1")
      from translate_chunks_oplog [of md5 tr ?chunks source_lang target_lang True ?w1] c
      obtain ops where ops: "oplog w2 = oplog ?w1 @ ops" by auto
      from False have long: "max_chunk_length < length ?clean" by simp
      from translate_text_long_miss [OF nb depth miss long c]
      have "snd (translate_text md5 tr text source_lang target_lang True
          recursion_depth w) = save_to_cache md5 text target_lang (py_join '' '' ts) w2"
        by simp
      then have "oplog (snd (translate_text md5 tr text source_lang target_lang True
          recursion_depth w)) = oplog w @ Lookup ?k # (ops @ [Store ?k])"
        using ops by (simp add: save_to_cache_def Let_def)
      with False show ?thesis by (intro exI [of _ "ops @ [Store ?k]"]) simp
    qed
  qed
qed


text \<open>
  C4: an empty or whitespace-only text is returned with no cache access. For any other
  text \<open>translate_text\<close> with caching first looks the cache up under the key of the text
  as given, and normalizes whitespace only after a miss. A text within the chunk threshold
  is then looked up under the key of the normalized text, and every store is under that
  key (a store follows when the text is not cached and the provider succeeds). A longer
  text that is not cached ends with a store of the reassembled result under the key of the
  text as given. Two texts within the threshold that differ only in runs of whitespace
  share the entry of the normalized text: after the first is translated, the second
  returns the same result from that entry, with no live call.
\<close>

theorem translate_text_cache_keys:
  assumes "recursion_depth \<le> MAX_RECURSION_DEPTH"
    and "translate_text md5 tr text source_lang target_lang True recursion_depth w = (r1, w1)"
    and "translate_text md5 tr text2 source_lang target_lang True recursion_depth w1 = (r2, w2)"
  shows
    "(py_strip text = [] \<longrightarrow> oplog w1 = oplog w)
   \<and> (py_strip text \<noteq> [] \<longrightarrow>
        (\<exists>ops. oplog w1 = oplog w @ Lookup (get_cache_key md5 text target_lang) # ops
           \<and> (uncached md5 w target_lang text
                \<and> length (normalize_ws text) \<le> max_chunk_length \<longrightarrow>
                (\<exists>stores.
                    ops = Lookup (get_cache_key md5 (normalize_ws text) target_lang) # stores
                  \<and> set stores \<subseteq> {Store (get_cache_key md5 (normalize_ws text) target_lang)}))
           \<and> (uncached md5 w target_lang text
                \<and> length (normalize_ws text) \<le> max_chunk_length
                \<and> uncached md5 w target_lang (normalize_ws text)
                \<and> provider_succeeds_on tr source_lang target_lang (normalize_ws text) \<longrightarrow>
                ops = [Lookup (get_cache_key md5 (normalize_ws text) target_lang),
                       Store (get_cache_key md5 (normalize_ws text) target_lang)])
           \<and> (uncached md5 w target_lang text
                \<and> max_chunk_length < length (normalize_ws text) \<longrightarrow>
                ops \<noteq> [] \<and> last ops = Store (get_cache_key md5 text target_lang))))
   \<and> (py_strip text \<noteq> [] \<and> length (normalize_ws text) \<le> max_chunk_length
        \<and> normalize_ws text2 = normalize_ws text
        \<and> provider_succeeds_on tr source_lang target_lang (normalize_ws text)
        \<and> (\<forall>n. write_ok w n)
        \<and> uncached md5 w target_lang text \<and> uncached md5 w target_lang text2 \<longrightarrow>
        r2 = r1 \<and> calls w2 = calls w1
        \<and> map_option snd (cache w1 (get_cache_key md5 (normalize_ws text) target_lang)) = Some r1
        \<and> last (oplog w2) = Lookup (get_cache_key md5 (normalize_ws text) target_lang))"
proof -
  have blank: "oplog w1 = oplog w" if "py_strip text = []"
  proof -
    from that have "translate_text md5 tr text source_lang target_lang True recursion_depth w
        = (text, w)" by (simp add: translate_text_def)
    with assms(2) show ?thesis by simp
  qed
  have log: "\<exists>ops. oplog w1 = oplog w @ Lookup (get_cache_key md5 text target_lang) # ops
           \<and> (uncached md5 w target_lang text
                \<and> length (normalize_ws text) \<le> max_chunk_length \<longrightarrow>
                (\<exists>stores.
                    ops = Lookup (get_cache_key md5 (normalize_ws text) target_lang) # stores
                  \<and> set stores \<subseteq> {Store (get_cache_key md5 (normalize_ws text) target_lang)}))
           \<and> (uncached md5 w target_lang text
                \<and> length (normalize_ws text) \<le> max_chunk_length
                \<and> uncached md5 w target_lang (normalize_ws text)
                \<and> provider_succeeds_on tr source_lang target_lang (normalize_ws text) \<longrightarrow>
                ops = [Lookup (get_cache_key md5 (normalize_ws text) target_lang),
                       Store (get_cache_key md5 (normalize_ws text) target_lang)])
           \<and> (uncached md5 w target_lang text
                \<and> max_chunk_length < length (normalize_ws text) \<longrightarrow>
                ops \<noteq> [] \<and> last ops = Store (get_cache_key md5 text target_lang))"
    if "py_strip text \<noteq> []"
    using translate_text_key_log [OF assms(1) that, of md5 tr source_lang target_lang w] assms(2)
    by simp
  have shared: "r2 = r1 \<and> calls w2 = calls w1
        \<and> map_option snd (cache w1 (get_cache_key md5 (normalize_ws text) target_lang)) = Some r1
        \<and> last (oplog w2) = Lookup (get_cache_key md5 (normalize_ws text) target_lang)"
    if "py_strip text \<noteq> []" "length (normalize_ws text) \<le> max_chunk_length"
      "normalize_ws text2 = normalize_ws text"
      "provider_succeeds_on tr source_lang target_lang (normalize_ws text)"
      "\<forall>n. write_ok w n" "uncached md5 w target_lang text" "uncached md5 w target_lang text2"
    using translate_text_shared_entry [OF assms that(1-4) _ that(6,7)] that(5) by blast
  from blank log shared show ?thesis by blast
qed

theorem translate_text_cache_keys_witness:
  "oplog (snd (translate_text (\<lambda>s. s) echo_provider ''a  b'' ''uz'' ''en'' True 0 empty_world))
     = [Lookup (get_cache_key (\<lambda>s. s) ''a  b'' ''en''),
        Lookup (get_cache_key (\<lambda>s. s) ''a b'' ''en''),
        Store (get_cache_key (\<lambda>s. s) ''a b'' ''en'')]
   \<and> fst (translate_text (\<lambda>s. s) echo_provider '' a b'' ''uz'' ''en'' True 0
        (snd (translate_text (\<lambda>s. s) echo_provider ''a  b'' ''uz'' ''en'' True 0 empty_world)))
     = fst (translate_text (\<lambda>s. s) echo_provider ''a  b'' ''uz'' ''en'' True 0 empty_world)
   \<and> calls (snd (translate_text (\<lambda>s. s) echo_provider '' a b'' ''uz'' ''en'' True 0
        (snd (translate_text (\<lambda>s. s) echo_provider ''a  b'' ''uz'' ''en'' True 0 empty_world))))
     = calls (snd (translate_text (\<lambda>s. s) echo_provider ''a  b'' ''uz'' ''en'' True 0 empty_world))
   \<and> last (oplog (snd (translate_text (\<lambda>s. s) echo_provider '' a b'' ''uz'' ''en'' True 0
        (snd (translate_text (\<lambda>s. s) echo_provider ''a  b'' ''uz'' ''en'' True 0 empty_world)))))
     = Lookup (get_cache_key (\<lambda>s. s) ''a b'' ''en'')
   \<and> oplog (snd (translate_text (\<lambda>s. s) echo_provider ''   '' ''uz'' ''en'' True 0 empty_world))
     = oplog empty_world
   \<and> last (oplog (snd (translate_text (\<lambda>s. s) echo_provider long_text ''uz'' ''en'' True 0
        empty_world)))
     = Store (get_cache_key (\<lambda>s. s) long_text ''en'')"
proof -
  let ?T = "\<lambda>t. translate_text (\<lambda>s. s) echo_provider t ''uz'' ''en'' True 0"
  have d: "(0::nat) \<le> MAX_RECURSION_DEPTH" by simp
  have u: "\<And>s w. cache w = Map.empty \<Longrightarrow> uncached (\<lambda>s. s) w ''en'' s"
    by (simp add: uncached_def truthy_def)
  have e: "cache empty_world = Map.empty" "oplog empty_world = []" "\<forall>n. write_ok empty_world n"
    by (simp_all add: empty_world_def)
  have ok: "\<And>s. provider_succeeds_on echo_provider ''uz'' ''en'' s"
    by (simp add: provider_succeeds_on_def echo_provider_def)
  have nb: "py_strip ''a  b'' \<noteq> []" by (simp add: py_strip_def py_isspace_def)
  have n2: "normalize_ws '' a b'' = ''a b''"
    by (simp add: normalize_ws_def py_split_def py_isspace_def)
  have short: "length (normalize_ws ''a  b'') \<le> max_chunk_length"
    by (simp add: normalize_a_b max_chunk_length_def)
  have blank: "py_strip ''   '' = []" by (simp add: py_strip_def py_isspace_def)
  have long: "max_chunk_length < length (normalize_ws long_text)"
    by (simp only: long_text_facts)
  have c: "\<And>t w. ?T t w = (fst (?T t w), snd (?T t w))" by simp
  from translate_text_cache_keys [OF d c [of "''a  b''" empty_world]
      c [of "'' a b''" "snd (?T ''a  b'' empty_world)"]]
    nb short n2 normalize_a_b ok u [OF e(1)] e(2,3)
  have A: "oplog (snd (?T ''a  b'' empty_world))
      = [Lookup (get_cache_key (\<lambda>s. s) ''a  b'' ''en''),
         Lookup (get_cache_key (\<lambda>s. s) ''a b'' ''en''),
         Store (get_cache_key (\<lambda>s. s) ''a b'' ''en'')]"
    "fst (?T '' a b'' (snd (?T ''a  b'' empty_world))) = fst (?T ''a  b'' empty_world)"
    "calls (snd (?T '' a b'' (snd (?T ''a  b'' empty_world))))
       = calls (snd (?T ''a  b'' empty_world))"
    "last (oplog (snd (?T '' a b'' (snd (?T ''a  b'' empty_world)))))
       = Lookup (get_cache_key (\<lambda>s. s) ''a b'' ''en'')"
    by auto
  from translate_text_cache_keys [OF d c [of "''   ''" empty_world]
      c [of "''   ''" "snd (?T ''   '' empty_world)"]] blank
  have B: "oplog (snd (?T ''   '' empty_world)) = oplog empty_world" by blast
  from translate_text_cache_keys [OF d c [of long_text empty_world]
      c [of long_text "snd (?T long_text empty_world)"]]
    long_text_facts(4) long u [OF e(1)]
  obtain ops where "oplog (snd (?T long_text empty_world))
      = oplog empty_world @ Lookup (get_cache_key (\<lambda>s. s) long_text ''en'') # ops"
    "ops \<noteq> []" "last ops = Store (get_cache_key (\<lambda>s. s) long_text ''en'')"
    by blast
  then have C: "last (oplog (snd (?T long_text empty_world)))
      = Store (get_cache_key (\<lambda>s. s) long_text ''en'')" by simp
  from A B C show ?thesis by simp
qed

text \<open>
  For the input \<open>a  b\<close> (two spaces) the first lookup uses the key of the text with both
  spaces, which is not the key of the normalized text.
\<close>

theorem translate_text_looks_up_raw_key:
  "\<not> op_key ` set (oplog (snd (translate_text (\<lambda>s. s) (\<lambda>n s t x. Returned (''T:'' @ x))
         ''a  b'' ''uz'' ''en'' True 0 empty_world)))
       \<subseteq> {get_cache_key (\<lambda>s. s) (normalize_ws ''a  b'') ''en''}"
proof -
  have "oplog (snd (translate_text (\<lambda>s. s) (\<lambda>n s t x. Returned (''T:'' @ x))
         ''a  b'' ''uz'' ''en'' True 0 empty_world))
      = [Lookup ''.cache/trans_en_a  b_en.json'', Lookup ''.cache/trans_en_a b_en.json'',
         Store ''.cache/trans_en_a b_en.json'']"
    by code_simp
  moreover have "get_cache_key (\<lambda>s. s) (normalize_ws ''a  b'') ''en''
      = ''.cache/trans_en_a b_en.json''"
    by (simp add: normalize_a_b get_cache_key_def os_path_join_def CACHE_DIR_def)
  ultimately show ?thesis by (simp add: op_key_def)
qed

subsection \<open>Translating the same text twice\<close>









text \<open>
  On a disk that refuses every write nothing is cached, and the second call goes to the
  provider again.
\<close>

lemma translate_text_twice_failed_write:
  "calls (snd (translate_text (\<lambda>s. s) echo_provider ''salom'' ''uz'' ''en'' True 0
      (snd (translate_text (\<lambda>s. s) echo_provider ''salom'' ''uz'' ''en'' True 0
         (empty_world\<lparr>write_ok := (\<lambda>n. False)\<rparr>))))) = 2"
  by code_simp




end
